theory Spec2Isabelle
  imports Complex_Main "HOL-Library.Char_ord" "HOL-Library.List_Lexorder"
    "HOL-Library.Product_Lexorder"
begin

section \<open>Python values, dictionaries and errors\<close>

text \<open>
  The scalar values the comparators put into their difference records.  Python floats are
  idealised as reals throughout.
\<close>

datatype pyval = VNone | VBool bool | VInt int | VNum real | VStr string

datatype py_error =
    ZeroDivisionError
  | KeyError string
  | TypeError string
  | ValueError string

text \<open>
  Python's \<open>==\<close> on these values: numbers compare by value across \<open>bool\<close>, \<open>int\<close> and
  \<open>float\<close>, everything else by kind and content.
\<close>

fun num_of :: "pyval \<Rightarrow> real option" where
  "num_of (VBool b) = Some (if b then 1 else 0)"
| "num_of (VInt i) = Some (of_int i)"
| "num_of (VNum x) = Some x"
| "num_of VNone = None"
| "num_of (VStr s) = None"

definition py_eq :: "pyval \<Rightarrow> pyval \<Rightarrow> bool" where
  "py_eq a b =
     (case (num_of a, num_of b) of
        (Some x, Some y) \<Rightarrow> x = y
      | (None, None) \<Rightarrow> a = b
      | _ \<Rightarrow> False)"

text \<open>A Python dict in insertion order; the keys are strings unless said otherwise.\<close>

type_synonym 'v pydict = "(string \<times> 'v) list"

definition dict_get :: "('k \<times> 'v) list \<Rightarrow> 'k \<Rightarrow> 'v \<Rightarrow> 'v" where
  "dict_get d k dflt = (case map_of d k of None \<Rightarrow> dflt | Some v \<Rightarrow> v)"

text \<open>\<open>d[k] = v\<close>: an existing key keeps its position, a new key goes to the end.\<close>

fun dict_set :: "('k \<times> 'v) list \<Rightarrow> 'k \<Rightarrow> 'v \<Rightarrow> ('k \<times> 'v) list" where
  "dict_set [] k v = [(k, v)]"
| "dict_set ((k', v') # d) k v = (if k' = k then (k, v) # d else (k', v') # dict_set d k v)"

text \<open>\<open>d.get(key, default)\<close> on a field that may be missing.\<close>

definition opt_get :: "'a option \<Rightarrow> 'a \<Rightarrow> 'a" where
  "opt_get field dflt = (case field of None \<Rightarrow> dflt | Some v \<Rightarrow> v)"

definition py_truediv :: "real \<Rightarrow> real \<Rightarrow> py_error + real" where
  "py_truediv x y = (if y = 0 then Inl ZeroDivisionError else Inr (x / y))"

section \<open>ComparisonEngine.calculate\_similarity\_score\<close>

definition weights :: "real pydict" where
  "weights = [(''text'', 1.0), (''image'', 0.8), (''font'', 0.3), (''layout'', 0.5)]"

text \<open>\<open>weights.get(diff.get("type", "text"), 1.0)\<close>\<close>

definition weight_of :: "pyval pydict \<Rightarrow> real" where
  "weight_of diff =
     (case dict_get diff ''type'' (VStr ''text'') of
        VStr change_type \<Rightarrow> dict_get weights change_type 1.0
      | _ \<Rightarrow> 1.0)"

definition calculate_similarity_score :: "pyval pydict list \<Rightarrow> int \<Rightarrow> py_error + real" where
  "calculate_similarity_score differences total_elements =
     (if total_elements = 0 then Inr 1.0
      else
        let weighted_changes = fold (\<lambda>diff acc. acc + weight_of diff) differences 0
        in case py_truediv weighted_changes (of_int total_elements) of
             Inl e \<Rightarrow> Inl e
           | Inr q \<Rightarrow> Inr (max 0.0 (min 1.0 (1 - q))))"

text \<open>The number of records of one category in a list.\<close>

definition count_type :: "string \<Rightarrow> pyval pydict list \<Rightarrow> nat" where
  "count_type t ds = length (filter (\<lambda>d. dict_get d ''type'' (VStr ''text'') = VStr t) ds)"

definition known_category :: "pyval pydict \<Rightarrow> bool" where
  "known_category d \<longleftrightarrow>
     dict_get d ''type'' (VStr ''text'') \<in> set (map VStr [''text'', ''image'', ''font'', ''layout''])"

section \<open>LearningModule (learning\_module.py)\<close>

text \<open>
  One entry of \<open>comparison_data['differences']\<close>: a dict, of which the module reads the
  string-valued keys \<open>type\<close>, \<open>severity\<close> and \<open>operation\<close>, or something that is not a dict
  (\<open>isinstance(diff, dict)\<close> is false), which the module skips.
\<close>

datatype diff_item = DiffDict "string pydict" | NotADict

record comparison_data =
  differences :: "diff_item list option"
  other_fields :: "string pydict"

record example =
  ex_timestamp :: real
  ex_data :: comparison_data

record pattern =
  count :: int
  first_seen :: real
  last_seen :: real
  examples :: "example list"
  metadata :: comparison_data

record stat_entry =
  st_value :: pyval
  st_timestamp :: real

text \<open>
  The in-memory state of the module.  \<open>time.time()\<close> is modelled by a clock, a function from
  the number of readings taken so far to the value read; \<open>ticks\<close> counts the readings.
  \<open>frequent_changes\<close> is a \<open>defaultdict(int)\<close>.  The performance metrics take no part in
  the operations below and are left out.
\<close>

type_synonym clock = "nat \<Rightarrow> real"

record learning_module =
  patterns :: "string \<rightharpoonup> pattern"
  statistics :: "string \<rightharpoonup> stat_entry list"
  frequent_changes :: "string \<Rightarrow> int"
  ticks :: nat

definition time_time :: "clock \<Rightarrow> learning_module \<Rightarrow> real \<times> learning_module" where
  "time_time clk s = (clk (ticks s), s\<lparr>ticks := Suc (ticks s)\<rparr>)"

text \<open>
  \<open>_save_data\<close> reads the clock once for \<open>last_updated\<close> and writes the file; every
  exception is swallowed and the in-memory state stays as it is.
\<close>

definition save_data :: "clock \<Rightarrow> learning_module \<Rightarrow> learning_module" where
  "save_data clk s = snd (time_time clk s)"

fun join :: "string \<Rightarrow> string list \<Rightarrow> string" where
  "join sep [] = []"
| "join sep [x] = x"
| "join sep (x # y # xs) = x @ sep @ join sep (y # xs)"

text \<open>\<open>d.get(k, 'unknown')\<close> for every dict entry of the list, skipping the others.\<close>

fun collect :: "string \<Rightarrow> diff_item list \<Rightarrow> string list" where
  "collect k [] = []"
| "collect k (DiffDict d # ds) = dict_get d k ''unknown'' # collect k ds"
| "collect k (NotADict # ds) = collect k ds"

definition extract_pattern_key :: "comparison_data \<Rightarrow> string" where
  "extract_pattern_key data =
     (let change_types = (case differences data of None \<Rightarrow> [] | Some ds \<Rightarrow> collect ''type'' ds);
          severities = (case differences data of None \<Rightarrow> [] | Some ds \<Rightarrow> collect ''severity'' ds);
          change_type_str =
            (if change_types \<noteq> [] then join ''_'' (sort (remdups change_types)) else ''no_changes'');
          severity_str =
            (if severities \<noteq> [] then join ''_'' (sort (remdups severities)) else ''no_severity'')
      in change_type_str @ ''_'' @ severity_str)"

fun bump_changes :: "diff_item list \<Rightarrow> (string \<Rightarrow> int) \<Rightarrow> (string \<Rightarrow> int)" where
  "bump_changes [] fc = fc"
| "bump_changes (DiffDict d # ds) fc =
     (let change_signature = dict_get d ''type'' ''unknown'' @ ''_'' @ dict_get d ''operation'' ''unknown''
      in bump_changes ds (fc(change_signature := fc change_signature + 1)))"
| "bump_changes (NotADict # ds) fc = bump_changes ds fc"

definition update_frequent_changes :: "comparison_data \<Rightarrow> learning_module \<Rightarrow> learning_module" where
  "update_frequent_changes data s =
     (case differences data of
        None \<Rightarrow> s
      | Some ds \<Rightarrow> s\<lparr>frequent_changes := bump_changes ds (frequent_changes s)\<rparr>)"

text \<open>
  \<open>update_patterns\<close>.  A new key gets \<open>count\<close> 0 and two clock readings; a known key has its
  \<open>count\<close> incremented and \<open>last_seen\<close> read anew.  Then the example is appended with a
  further reading, the oldest example is dropped past ten, and the data is saved.  On
  comparison data of this shape nothing in the body raises, so the handler that logs an
  exception and returns is never entered.
\<close>

definition update_patterns :: "clock \<Rightarrow> comparison_data \<Rightarrow> learning_module \<Rightarrow> learning_module" where
  "update_patterns clk data s =
     (let pattern_key = extract_pattern_key data;
          (p0, s1) = (case patterns s pattern_key of
                  None \<Rightarrow>
                    let (t1, sa) = time_time clk s;
                        (t2, sb) = time_time clk sa
                    in (\<lparr>count = 0, first_seen = t1, last_seen = t2, examples = [],
                         metadata = data\<rparr>, sb)
                | Some p \<Rightarrow>
                    let (t, sa) = time_time clk s
                    in (p\<lparr>count := count p + 1, last_seen := t\<rparr>, sa));
          (t3, s2) = time_time clk s1;
          appended = examples p0 @ [\<lparr>ex_timestamp = t3, ex_data = data\<rparr>];
          trimmed = (if length appended > 10 then tl appended else appended);
          s3 = s2\<lparr>patterns := (patterns s2)(pattern_key \<mapsto> p0\<lparr>examples := trimmed\<rparr>)\<rparr>;
          s4 = update_frequent_changes data s3
      in save_data clk s4)"

text \<open>
  \<open>update_statistics\<close>: append a stamped entry to the metric's list (created empty when the
  metric is new), keep the last 1000 entries, save.
\<close>

definition stat_entries :: "learning_module \<Rightarrow> string \<Rightarrow> stat_entry list" where
  "stat_entries s metric = (case statistics s metric of None \<Rightarrow> [] | Some es \<Rightarrow> es)"

definition update_statistics :: "clock \<Rightarrow> string \<Rightarrow> pyval \<Rightarrow> learning_module \<Rightarrow> learning_module" where
  "update_statistics clk metric v s =
     (let es0 = (case statistics s metric of None \<Rightarrow> [] | Some es \<Rightarrow> es);
          (t, s1) = time_time clk s;
          appended = es0 @ [\<lparr>st_value = v, st_timestamp = t\<rparr>];
          kept = (if length appended > 1000 then drop (length appended - 1000) appended
                  else appended);
          s2 = s1\<lparr>statistics := (statistics s1)(metric \<mapsto> kept)\<rparr>
      in save_data clk s2)"

text \<open>
  \<open>clear_old_data\<close>: the cutoff is the clock reading minus the days to keep, in seconds.
  Every metric keeps the entries stamped after the cutoff and is deleted when none is left;
  every pattern keeps the examples stamped after the cutoff and is deleted when none is left
  and its \<open>last_seen\<close> is before the cutoff.
\<close>

definition clear_old_data :: "clock \<Rightarrow> int \<Rightarrow> learning_module \<Rightarrow> learning_module" where
  "clear_old_data clk days_to_keep s =
     (let (now, s1) = time_time clk s;
          cutoff_time = now - of_int (days_to_keep * 24 * 3600);
          stats = (\<lambda>metric.
             case statistics s1 metric of
               None \<Rightarrow> None
             | Some es \<Rightarrow>
                 let kept = filter (\<lambda>v. st_timestamp v > cutoff_time) es
                 in if kept = [] then None else Some kept);
          pats = (\<lambda>pattern_key.
             case patterns s1 pattern_key of
               None \<Rightarrow> None
             | Some p \<Rightarrow>
                 let p' = p\<lparr>examples := filter (\<lambda>ex. ex_timestamp ex > cutoff_time) (examples p)\<rparr>
                 in if examples p' = [] \<and> last_seen p' < cutoff_time then None else Some p');
          s2 = s1\<lparr>statistics := stats, patterns := pats\<rparr>
      in save_data clk s2)"

text \<open>The store of a module that found no saved data.\<close>

definition fresh_module :: learning_module where
  "fresh_module = \<lparr>patterns = Map.empty, statistics = Map.empty, frequent_changes = (\<lambda>_. 0), ticks = 0\<rparr>"

section \<open>LearningModule (neuro\_ai\_mock.py)\<close>

record mock_pattern =
  m_count :: int
  m_first_seen :: real
  m_last_seen :: real
  m_data :: comparison_data

record mock_module =
  m_patterns :: "string \<rightharpoonup> mock_pattern"
  m_statistics :: "string \<rightharpoonup> pyval list"
  m_ticks :: nat

definition mock_extract_pattern_key :: "comparison_data \<Rightarrow> string" where
  "mock_extract_pattern_key data =
     dict_get (other_fields data) ''type'' ''unknown'' @ ''_'' @ dict_get (other_fields data) ''severity'' ''unknown''"

definition mock_update_patterns :: "clock \<Rightarrow> comparison_data \<Rightarrow> mock_module \<Rightarrow> mock_module" where
  "mock_update_patterns clk data s =
     (let pattern_key = mock_extract_pattern_key data
      in case m_patterns s pattern_key of
           None \<Rightarrow>
             s\<lparr>m_patterns := (m_patterns s)(pattern_key \<mapsto>
                  \<lparr>m_count = 0, m_first_seen = clk (m_ticks s), m_last_seen = clk (Suc (m_ticks s)),
                   m_data = data\<rparr>),
               m_ticks := m_ticks s + 2\<rparr>
         | Some p \<Rightarrow>
             s\<lparr>m_patterns := (m_patterns s)(pattern_key \<mapsto>
                  p\<lparr>m_count := m_count p + 1, m_last_seen := clk (m_ticks s)\<rparr>),
               m_ticks := Suc (m_ticks s)\<rparr>)"

definition fresh_mock :: mock_module where
  "fresh_mock = \<lparr>m_patterns = Map.empty, m_statistics = Map.empty, m_ticks = 0\<rparr>"

subsection \<open>Runs of the module and sample stores\<close>

text \<open>The last \<open>n\<close> elements of a list, Python's \<open>xs[-n:]\<close> for positive \<open>n\<close>.\<close>

definition take_last :: "nat \<Rightarrow> 'a list \<Rightarrow> 'a list" where
  "take_last n xs = drop (length xs - n) xs"

text \<open>A sequence of \<open>update_statistics\<close> calls, each given as the metric and the value.\<close>

fun run_updates :: "clock \<Rightarrow> (string \<times> pyval) list \<Rightarrow> learning_module \<Rightarrow> learning_module" where
  "run_updates clk [] s = s"
| "run_updates clk ((m, v) # calls) s = run_updates clk calls (update_statistics clk m v s)"

text \<open>
  The entries such a sequence records for one metric, oldest first, when the first call
  starts at clock reading \<open>t\<close>: every call reads the clock twice, once for the entry and once
  on saving.
\<close>

fun recorded :: "clock \<Rightarrow> nat \<Rightarrow> (string \<times> pyval) list \<Rightarrow> string \<Rightarrow> stat_entry list" where
  "recorded clk t [] metric = []"
| "recorded clk t ((m, v) # calls) metric =
     (if m = metric then [\<lparr>st_value = v, st_timestamp = clk t\<rparr>] else [])
     @ recorded clk (t + 2) calls metric"

definition cutoff_of :: "clock \<Rightarrow> int \<Rightarrow> learning_module \<Rightarrow> real" where
  "cutoff_of clk days_to_keep s = clk (ticks s) - of_int (days_to_keep * 24 * 3600)"

text \<open>A clock that advances by one second at every reading.\<close>

definition tick_clock :: clock where
  "tick_clock n = real n"

definition sample_data :: comparison_data where
  "sample_data = \<lparr>differences = Some [DiffDict [(''type'', ''text''), (''severity'', ''minor'')]],
                  other_fields = [(''filename'', ''a.pdf'')]\<rparr>"

definition full_store :: learning_module where
  "full_store = fresh_module\<lparr>statistics := [''files_processed'' \<mapsto>
      replicate 1000 \<lparr>st_value = VNum 1, st_timestamp = 0\<rparr>]\<rparr>"

definition aged_store :: learning_module where
  "aged_store = fresh_module\<lparr>
     statistics := [''total_changes'' \<mapsto>
        [\<lparr>st_value = VNum 3, st_timestamp = 50\<rparr>, \<lparr>st_value = VNum 4, st_timestamp = 100\<rparr>,
         \<lparr>st_value = VNum 5, st_timestamp = 150\<rparr>]],
     patterns := [''text_minor'' \<mapsto>
        \<lparr>count = 0, first_seen = 10, last_seen = 100,
         examples = [\<lparr>ex_timestamp = 20, ex_data = sample_data\<rparr>], metadata = sample_data\<rparr>],
     ticks := 100\<rparr>"

section \<open>Agent and Workflow (neuro\_ai\_mock.py)\<close>

text \<open>
  What a task returns: a dict, whose entries \<open>Workflow.execute\<close> merges into the context of
  the later steps, or any other value.
\<close>

datatype 'v task_result = DictResult "'v pydict" | OtherResult 'v

record 'v task =
  task_name :: string
  func :: "'v pydict \<Rightarrow> py_error + 'v task_result"
  task_timeout :: int
  task_retry_attempts :: int
  task_parallel :: bool
  task_max_workers :: int
  task_dependencies :: "string list"

record workflow_step =
  step_name :: string
  step_task :: string
  step_timeout :: int
  step_retry_attempts :: int
  step_parallel :: bool
  step_max_workers :: int
  step_dependencies :: "string list"

record 'v agent =
  agent_name :: string
  tasks :: "string \<rightharpoonup> 'v task"

record 'v workflow =
  workflow_name :: string
  steps :: "workflow_step list"
  agent :: "'v agent option"

definition get_task :: "'v agent \<Rightarrow> string \<Rightarrow> 'v task option" where
  "get_task a name = tasks a name"

text \<open>
  \<open>Agent.execute_task(task_name, **kwargs)\<close>.  The result comes with the log of the task
  functions called: the name of the task when its function was called, nothing otherwise.
  A keyword argument named like one of the method's own parameters makes the call itself
  fail before the method body runs.
\<close>

definition execute_task ::
  "'v agent \<Rightarrow> string \<Rightarrow> 'v pydict \<Rightarrow> string list \<times> (py_error + 'v task_result)" where
  "execute_task a name kwargs =
     (if ''self'' \<in> fst ` set kwargs \<or> ''task_name'' \<in> fst ` set kwargs
      then ([], Inl (TypeError ''execute_task() got multiple values for argument''))
      else case get_task a name of
             None \<Rightarrow> ([], Inl (ValueError (''Task '' @ [CHR 0x27] @ name @ [CHR 0x27] @ '' not found'')))
           | Some task \<Rightarrow> ([name], func task kwargs))"

text \<open>\<open>_check_dependencies\<close>: every dependency is a key of the results so far.\<close>

fun check_dependencies :: "workflow_step \<Rightarrow> 'r pydict \<Rightarrow> bool" where
  "check_dependencies step results = list_all (\<lambda>dep. dep \<in> fst ` set results) (step_dependencies step)"

text \<open>\<open>step_context.update(step_result)\<close> for a dict result, nothing for any other.\<close>

fun merge_result :: "(string \<times> 'v task_result) \<Rightarrow> 'v pydict \<Rightarrow> 'v pydict" where
  "merge_result (name, DictResult d) ctx = fold (\<lambda>(k, v) c. dict_set c k v) d ctx"
| "merge_result (name, OtherResult v) ctx = ctx"

text \<open>
  The loop of \<open>Workflow.execute\<close> over the steps that remain, from the results so far and
  the log of the task functions called so far.  A step whose dependencies are not all
  among the results raises; a step whose task raises re-raises; otherwise the result is
  stored under the step's name.
\<close>

fun run_steps ::
  "'v agent \<Rightarrow> 'v pydict \<Rightarrow> workflow_step list \<Rightarrow> 'v task_result pydict \<Rightarrow> string list
     \<Rightarrow> string list \<times> (py_error + 'v task_result pydict)" where
  "run_steps a context [] results calls = (calls, Inr results)"
| "run_steps a context (step # rest) results calls =
     (if \<not> check_dependencies step results
      then (calls, Inl (ValueError (''Dependencies not met for step: '' @ step_name step)))
      else
        let step_context = fold merge_result results context
        in case execute_task a (step_task step) step_context of
             (called, Inl e) \<Rightarrow> (calls @ called, Inl e)
           | (called, Inr step_result) \<Rightarrow>
               run_steps a context rest (dict_set results (step_name step) step_result)
                 (calls @ called))"

text \<open>\<open>_topological_sort\<close> returns the steps as declared.\<close>

definition topological_sort :: "'v workflow \<Rightarrow> workflow_step list" where
  "topological_sort flow = steps flow"

definition execute ::
  "'v workflow \<Rightarrow> 'v pydict \<Rightarrow> string list \<times> (py_error + 'v task_result pydict)" where
  "execute flow context =
     (case agent flow of
        None \<Rightarrow> ([], Inl (ValueError ''No agent set for workflow''))
      | Some a \<Rightarrow> run_steps a context (topological_sort flow) [] [])"

subsection \<open>A sample workflow declared out of order\<close>

definition mk_step :: "string \<Rightarrow> string \<Rightarrow> string list \<Rightarrow> workflow_step" where
  "mk_step n t deps =
     \<lparr>step_name = n, step_task = t, step_timeout = 300, step_retry_attempts = 3,
      step_parallel = False, step_max_workers = 1, step_dependencies = deps\<rparr>"

definition mk_task :: "string \<Rightarrow> (pyval pydict \<Rightarrow> py_error + pyval task_result) \<Rightarrow> pyval task" where
  "mk_task n f =
     \<lparr>task_name = n, func = f, task_timeout = 300, task_retry_attempts = 3,
      task_parallel = False, task_max_workers = 1, task_dependencies = []\<rparr>"

definition sample_agent :: "pyval agent" where
  "sample_agent =
     \<lparr>agent_name = ''agent'',
      tasks = [''task_a'' \<mapsto> mk_task ''task_a'' (\<lambda>kw. Inr (DictResult [(''a_done'', VBool True)])),
               ''task_b'' \<mapsto> mk_task ''task_b'' (\<lambda>kw. Inr (DictResult [(''b_done'', VBool True)]))]\<rparr>"

definition out_of_order :: "pyval workflow" where
  "out_of_order =
     \<lparr>workflow_name = ''out_of_order'',
      steps = [mk_step ''B'' ''task_b'' [''A''], mk_step ''A'' ''task_a'' []],
      agent = Some sample_agent\<rparr>"

section \<open>Font comparison\<close>

text \<open>
  A font entry of an extracted document is a dict; a field that is \<open>None\<close> here is a key the
  dict does not have.  The parser writes \<open>name\<close>, \<open>size\<close>, \<open>color\<close> and \<open>flags\<close>.
\<close>

record font =
  font_name :: "string option"
  font_family :: "string option"
  font_size :: "real option"
  font_style :: "pyval option"
  font_color :: "pyval option"
  font_flags :: "pyval option"

record font_config =
  size_tolerance :: "real option"
  style_check :: "bool option"
  family_check :: "bool option"
  color_check :: "bool option"
  weight_check :: "bool option"

subsection \<open>ComparisonEngine.compare\_fonts\_detailed\<close>

text \<open>\<open>{f.get("name", ""): f for f in fonts}\<close>: a later entry replaces an earlier one of the same name.\<close>

definition font_dict :: "font list \<Rightarrow> font pydict" where
  "font_dict fonts = fold (\<lambda>f d. dict_set d (opt_get (font_name f) '''') f) fonts []"











subsection \<open>FontAnalyzer.compare\<close>

text \<open>\<open>{f["name"]: f for f in fonts}\<close>, which raises on an entry without a name.\<close>

fun name_dict :: "font list \<Rightarrow> font pydict \<Rightarrow> py_error + font pydict" where
  "name_dict [] d = Inr d"
| "name_dict (f # fs) d =
     (case font_name f of
        None \<Rightarrow> Inl (KeyError ''name'')
      | Some n \<Rightarrow> name_dict fs (dict_set d n f))"

definition none_or :: "pyval option \<Rightarrow> pyval" where
  "none_or field = opt_get field VNone"

definition analyze_font :: "font pydict \<Rightarrow> font pydict \<Rightarrow> real \<Rightarrow> string \<Rightarrow> py_error + pyval pydict list" where
  "analyze_font font_dict1 font_dict2 tolerance name =
     (case map_of font_dict1 name of
        None \<Rightarrow>
          Inr [[(''type'', VStr ''font''), (''change'', VStr ''added''), (''font_name'', VStr name),
                (''severity'', VStr ''minor'')]]
      | Some f1 \<Rightarrow>
          (case map_of font_dict2 name of
             None \<Rightarrow>
               Inr [[(''type'', VStr ''font''), (''change'', VStr ''removed''),
                     (''font_name'', VStr name), (''severity'', VStr ''minor'')]]
           | Some f2 \<Rightarrow>
               (case font_size f1 of
                  None \<Rightarrow> Inl (KeyError ''size'')
                | Some size1 \<Rightarrow>
                    (case font_size f2 of
                       None \<Rightarrow> Inl (KeyError ''size'')
                     | Some size2 \<Rightarrow>
                         Inr ((if \<bar>size1 - size2\<bar> > tolerance
                               then [[(''type'', VStr ''font''), (''change'', VStr ''size''),
                                      (''font_name'', VStr name), (''reference_size'', VNum size1),
                                      (''new_size'', VNum size2), (''severity'', VStr ''minor'')]]
                               else [])
                            @ (if \<not> py_eq (none_or (font_flags f1)) (none_or (font_flags f2))
                               then [[(''type'', VStr ''font''), (''change'', VStr ''style''),
                                      (''font_name'', VStr name),
                                      (''reference_flags'', none_or (font_flags f1)),
                                      (''new_flags'', none_or (font_flags f2)),
                                      (''severity'', VStr ''minor'')]]
                               else [])
                            @ (if \<not> py_eq (none_or (font_color f1)) (none_or (font_color f2))
                               then [[(''type'', VStr ''font''), (''change'', VStr ''color''),
                                      (''font_name'', VStr name),
                                      (''reference_color'', none_or (font_color f1)),
                                      (''new_color'', none_or (font_color f2)),
                                      (''severity'', VStr ''minor'')]]
                               else []))))))"

fun analyze_fonts ::
  "font pydict \<Rightarrow> font pydict \<Rightarrow> real \<Rightarrow> string list \<Rightarrow> pyval pydict list
     \<Rightarrow> py_error + pyval pydict list" where
  "analyze_fonts font_dict1 font_dict2 tolerance [] diffs_so_far = Inr diffs_so_far"
| "analyze_fonts font_dict1 font_dict2 tolerance (name # names) diffs_so_far =
     (case analyze_font font_dict1 font_dict2 tolerance name of
        Inl e \<Rightarrow> Inl e
      | Inr new \<Rightarrow> analyze_fonts font_dict1 font_dict2 tolerance names (diffs_so_far @ new))"

text \<open>
  The names are visited as a Python set, in no fixed order; the model takes the names of the
  first list, then the new names of the second.
\<close>

definition font_analyzer_compare :: "font list \<Rightarrow> font list \<Rightarrow> font_config \<Rightarrow> py_error + pyval pydict list" where
  "font_analyzer_compare fonts1 fonts2 config =
     (let tolerance = opt_get (size_tolerance config) 0.5
      in case name_dict fonts1 [] of
           Inl e \<Rightarrow> Inl e
         | Inr font_dict1 \<Rightarrow>
             (case name_dict fonts2 [] of
                Inl e \<Rightarrow> Inl e
              | Inr font_dict2 \<Rightarrow>
                  analyze_fonts font_dict1 font_dict2 tolerance
                    (remdups (map fst font_dict1 @ map fst font_dict2)) []))"


subsection \<open>Sample fonts and tolerances\<close>

definition mk_font :: "string \<Rightarrow> real \<Rightarrow> font" where
  "mk_font name sz =
     \<lparr>font_name = Some name, font_family = None, font_size = Some sz, font_style = None,
      font_color = None, font_flags = None\<rparr>"


section \<open>difflib.SequenceMatcher\<close>

text \<open>
  The matcher of Python's standard library as \<open>TextComparator\<close> uses it:
  \<open>SequenceMatcher(None, a, b)\<close>, with no junk function and \<open>autojunk\<close> left on.  The set of
  junk elements is empty then, so the two loops of \<open>find_longest_match\<close> that extend a match
  over junk never run and are left out.

  \<open>b2j.get(elt, [])\<close> after \<open>__chain_b\<close>: the indices of \<open>elt\<close> in \<open>b\<close>, in ascending order;
  when \<open>b\<close> has 200 elements or more, an element with more than \<open>len(b) // 100 + 1\<close>
  occurrences is popular and has no indices.
\<close>

definition b2j :: "'a list \<Rightarrow> 'a \<Rightarrow> nat list" where
  "b2j b elt =
     (let indices = filter (\<lambda>i. b ! i = elt) [0..<length b]
      in if length b \<ge> 200 \<and> length indices > length b div 100 + 1 then [] else indices)"

text \<open>
  The inner loop of \<open>find_longest_match\<close> for row \<open>i\<close>, over the indices \<open>j\<close> of \<open>a[i]\<close> in
  \<open>b\<close>: an index below \<open>blo\<close> is skipped, the loop breaks at the first index from \<open>bhi\<close> on.
  \<open>j2len\<close> is the dict of the row before, \<open>newj2len\<close> the one being filled.
\<close>

fun match_row ::
  "(nat \<rightharpoonup> nat) \<Rightarrow> nat \<Rightarrow> nat \<Rightarrow> nat \<Rightarrow> nat list \<Rightarrow> (nat \<rightharpoonup> nat) \<times> nat \<times> nat \<times> nat
     \<Rightarrow> (nat \<rightharpoonup> nat) \<times> nat \<times> nat \<times> nat" where
  "match_row j2len i blo bhi [] st = st"
| "match_row j2len i blo bhi (j # js) (newj2len, besti, bestj, bestsize) =
     (if j < blo then match_row j2len i blo bhi js (newj2len, besti, bestj, bestsize)
      else if j \<ge> bhi then (newj2len, besti, bestj, bestsize)
      else
        let k = (if j = 0 then 0 else case j2len (j - 1) of None \<Rightarrow> 0 | Some v \<Rightarrow> v) + 1
        in if k > bestsize
           then match_row j2len i blo bhi js (newj2len(j \<mapsto> k), i + 1 - k, j + 1 - k, k)
           else match_row j2len i blo bhi js (newj2len(j \<mapsto> k), besti, bestj, bestsize))"

text \<open>The outer loop, over the rows \<open>i\<close> of \<open>range(alo, ahi)\<close> that remain.\<close>

fun match_rows ::
  "'a list \<Rightarrow> 'a list \<Rightarrow> nat \<Rightarrow> nat \<Rightarrow> nat list \<Rightarrow> (nat \<rightharpoonup> nat) \<times> nat \<times> nat \<times> nat
     \<Rightarrow> nat \<times> nat \<times> nat" where
  "match_rows a b blo bhi [] (j2len, besti, bestj, bestsize) = (besti, bestj, bestsize)"
| "match_rows a b blo bhi (i # rows) (j2len, besti, bestj, bestsize) =
     match_rows a b blo bhi rows
       (match_row j2len i blo bhi (b2j b (a ! i)) (Map.empty, besti, bestj, bestsize))"

text \<open>The two loops that extend the best match by equal elements on each end.\<close>

function extend_left :: "'a list \<Rightarrow> 'a list \<Rightarrow> nat \<Rightarrow> nat \<Rightarrow> nat \<times> nat \<times> nat \<Rightarrow> nat \<times> nat \<times> nat" where
  "extend_left a b alo blo (besti, bestj, bestsize) =
     (if besti > alo \<and> bestj > blo \<and> a ! (besti - 1) = b ! (bestj - 1)
      then extend_left a b alo blo (besti - 1, bestj - 1, bestsize + 1)
      else (besti, bestj, bestsize))"
  by pat_completeness auto
termination
  by (relation "measure (\<lambda>(a, b, alo, blo, besti, bestj, bestsize). besti)") auto

function extend_right :: "'a list \<Rightarrow> 'a list \<Rightarrow> nat \<Rightarrow> nat \<Rightarrow> nat \<times> nat \<times> nat \<Rightarrow> nat \<times> nat \<times> nat" where
  "extend_right a b ahi bhi (besti, bestj, bestsize) =
     (if besti + bestsize < ahi \<and> bestj + bestsize < bhi
         \<and> a ! (besti + bestsize) = b ! (bestj + bestsize)
      then extend_right a b ahi bhi (besti, bestj, bestsize + 1)
      else (besti, bestj, bestsize))"
  by pat_completeness auto
termination
  by (relation "measure (\<lambda>(a, b, ahi, bhi, besti, bestj, bestsize). ahi - (besti + bestsize))") auto

definition find_longest_match :: "'a list \<Rightarrow> 'a list \<Rightarrow> nat \<Rightarrow> nat \<Rightarrow> nat \<Rightarrow> nat \<Rightarrow> nat \<times> nat \<times> nat" where
  "find_longest_match a b alo ahi blo bhi =
     extend_right a b ahi bhi
       (extend_left a b alo blo
          (match_rows a b blo bhi [alo..<ahi] (Map.empty, alo, blo, 0)))"

subsection \<open>Bounds of the longest match, for the termination of the block loop\<close>

declare extend_left.simps [simp del] extend_right.simps [simp del]

lemma match_row_bounds:
  assumes "\<forall>j v. j2len j = Some v \<longrightarrow> v \<le> i - alo" and "alo \<le> i"
    and "\<forall>j v. m j = Some v \<longrightarrow> v \<le> i + 1 - alo" and "alo \<le> bi" and "bi + bs \<le> i + 1"
    and "match_row j2len i blo bhi js (m, bi, bj, bs) = (m', bi', bj', bs')"
  shows "(\<forall>j v. m' j = Some v \<longrightarrow> v \<le> i + 1 - alo) \<and> alo \<le> bi' \<and> bi' + bs' \<le> i + 1"
  using assms(3-)
proof (induction js arbitrary: m bi bj bs)
  case Nil
  then show ?case by simp
next
  case (Cons j js)
  show ?case
  proof (cases "j < blo")
    case True
    with Cons.prems(4) have "match_row j2len i blo bhi js (m, bi, bj, bs) = (m', bi', bj', bs')"
      by simp
    from Cons.IH [OF Cons.prems(1-3) this] show ?thesis .
  next
    case low: False
    show ?thesis
    proof (cases "j \<ge> bhi")
      case True
      with low Cons.prems show ?thesis by simp
    next
      case False
      define k where "k = (if j = 0 then 0 else case j2len (j - 1) of None \<Rightarrow> 0 | Some v \<Rightarrow> v) + 1"
      have k: "k \<le> i + 1 - alo" "1 \<le> k"
        using assms(1,2) by (auto simp: k_def split: option.splits) (metis Suc_diff_le Suc_le_mono)
      have m: "\<forall>j' v. (m(j \<mapsto> k)) j' = Some v \<longrightarrow> v \<le> i + 1 - alo"
        using Cons.prems(1) k by auto
      show ?thesis
      proof (cases "k > bs")
        case True
        with low False Cons.prems(4)
        have run: "match_row j2len i blo bhi js (m(j \<mapsto> k), i + 1 - k, j + 1 - k, k) = (m', bi', bj', bs')"
          by (simp add: k_def Let_def)
        have "alo \<le> i + 1 - k" "i + 1 - k + k \<le> i + 1" using k assms(2) by auto
        from Cons.IH [OF m this run] show ?thesis .
      next
        case nb: False
        with low False Cons.prems(4)
        have run: "match_row j2len i blo bhi js (m(j \<mapsto> k), bi, bj, bs) = (m', bi', bj', bs')"
          by (simp add: k_def Let_def)
        from Cons.IH [OF m Cons.prems(2,3) run] show ?thesis .
      qed
    qed
  qed
qed

lemma match_rows_bounds:
  assumes "rows = [i0..<ahi]" and "alo \<le> i0"
    and "\<forall>j v. j2len j = Some v \<longrightarrow> v \<le> i0 - alo" and "alo \<le> bi" and "bi + bs \<le> i0"
    and "match_rows a b blo bhi rows (j2len, bi, bj, bs) = (i, j, k)"
  shows "alo \<le> i \<and> i + k \<le> max i0 ahi"
  using assms
proof (induction rows arbitrary: i0 j2len bi bj bs)
  case Nil
  then show ?case by auto
next
  case (Cons r rows)
  from Cons.prems(1) [symmetric] have r: "r = i0" and lt: "i0 < ahi" and rows: "rows = [Suc i0..<ahi]"
    by (auto simp: upt_eq_Cons_conv)
  obtain m' bi' bj' bs' where
    row: "match_row j2len i0 blo bhi (b2j b (a ! i0)) (Map.empty, bi, bj, bs) = (m', bi', bj', bs')"
    by (metis prod_cases4)
  have "bi + bs \<le> i0 + 1" using Cons.prems(5) by simp
  from match_row_bounds [OF Cons.prems(3) Cons.prems(2) _ Cons.prems(4) this row]
  have inv: "\<forall>j v. m' j = Some v \<longrightarrow> v \<le> Suc i0 - alo" "alo \<le> bi'" "bi' + bs' \<le> Suc i0"
    by auto
  have run: "match_rows a b blo bhi rows (m', bi', bj', bs') = (i, j, k)"
    using Cons.prems(6) row by (simp add: r)
  have "alo \<le> Suc i0" using Cons.prems(2) by simp
  from Cons.IH [OF rows this inv run] lt show ?case by (simp add: max_def split: if_splits)
qed

lemma extend_left_bounds:
  "alo \<le> bi \<Longrightarrow> extend_left a b alo blo (bi, bj, bs) = (i, j, k) \<Longrightarrow>
     alo \<le> i \<and> i + k = bi + bs"
proof (induction a b alo blo "(bi, bj, bs)" arbitrary: bi bj bs rule: extend_left.induct)
  case (1 a b alo blo besti bestj bestsize)
  show ?case
  proof (cases "besti > alo \<and> bestj > blo \<and> a ! (besti - 1) = b ! (bestj - 1)")
    case True
    with "1.prems"(2) have "extend_left a b alo blo (besti - 1, bestj - 1, bestsize + 1) = (i, j, k)"
      by (simp add: extend_left.simps [of a b alo blo besti])
    from "1.hyps" [OF True _ this] True show ?thesis by auto
  next
    case False
    with "1.prems" show ?thesis
      by (auto simp: extend_left.simps [of a b alo blo besti] split: if_splits)
  qed
qed

lemma extend_right_bounds:
  "bi + bs \<le> ahi \<Longrightarrow> extend_right a b ahi bhi (bi, bj, bs) = (i, j, k) \<Longrightarrow>
     i = bi \<and> j = bj \<and> bs \<le> k \<and> i + k \<le> ahi"
proof (induction a b ahi bhi "(bi, bj, bs)" arbitrary: bi bj bs rule: extend_right.induct)
  case (1 a b ahi bhi besti bestj bestsize)
  show ?case
  proof (cases "besti + bestsize < ahi \<and> bestj + bestsize < bhi
         \<and> a ! (besti + bestsize) = b ! (bestj + bestsize)")
    case True
    with "1.prems"(2) have "extend_right a b ahi bhi (besti, bestj, bestsize + 1) = (i, j, k)"
      by (simp add: extend_right.simps [of a b ahi bhi besti])
    from "1.hyps" [OF True _ this] True show ?thesis by auto
  next
    case False
    with "1.prems" show ?thesis
      by (auto simp: extend_right.simps [of a b ahi bhi besti] split: if_splits)
  qed
qed

lemma find_longest_match_bounds:
  assumes "find_longest_match a b alo ahi blo bhi = (i, j, k)" and "k \<noteq> 0"
  shows "alo \<le> i \<and> i + k \<le> ahi"
proof (cases "alo \<le> ahi")
  case True
  obtain i1 j1 k1 where rows: "match_rows a b blo bhi [alo..<ahi] (Map.empty, alo, blo, 0) = (i1, j1, k1)"
    by (metis prod_cases3)
  obtain i2 j2 k2 where left: "extend_left a b alo blo (i1, j1, k1) = (i2, j2, k2)"
    by (metis prod_cases3)
  from assms(1) rows left have right: "extend_right a b ahi bhi (i2, j2, k2) = (i, j, k)"
    by (simp add: find_longest_match_def)
  from match_rows_bounds [OF refl _ _ _ _ rows, of alo] True
  have 1: "alo \<le> i1" "i1 + k1 \<le> ahi" by (auto simp: max_def)
  from extend_left_bounds [OF 1(1) left] 1 have 2: "alo \<le> i2" "i2 + k2 \<le> ahi" by auto
  from extend_right_bounds [OF 2(2) right] 2 show ?thesis by auto
next
  case False
  then have "find_longest_match a b alo ahi blo bhi = (alo, blo, 0)"
    by (simp add: find_longest_match_def extend_left.simps [of a b alo blo alo]
          extend_right.simps [of a b ahi bhi alo])
  with assms show ?thesis by simp
qed

text \<open>
  The loop of \<open>get_matching_blocks\<close>.  The queue is a stack: \<open>queue.pop()\<close> takes the entry
  appended last, which is the head of the list here.
\<close>

function collect_blocks ::
  "'a list \<Rightarrow> 'a list \<Rightarrow> (nat \<times> nat \<times> nat \<times> nat) list \<Rightarrow> (nat \<times> nat \<times> nat) list
     \<Rightarrow> (nat \<times> nat \<times> nat) list" where
  "collect_blocks a b [] matching_blocks = matching_blocks"
| "collect_blocks a b ((alo, ahi, blo, bhi) # queue) matching_blocks =
     (case find_longest_match a b alo ahi blo bhi of
        (i, j, k) \<Rightarrow>
          if k \<noteq> 0
          then collect_blocks a b
                 ((if i + k < ahi \<and> j + k < bhi then [(i + k, ahi, j + k, bhi)] else [])
                  @ (if alo < i \<and> blo < j then [(alo, i, blo, j)] else [])
                  @ queue)
                 (matching_blocks @ [(i, j, k)])
          else collect_blocks a b queue matching_blocks)"
  by pat_completeness auto
termination
proof (relation "measure (\<lambda>(a, b, queue, blocks).
          sum_list (map (\<lambda>(alo, ahi, blo, bhi). 2 * (ahi - alo) + 1) queue))", goal_cases)
  case 1
  show ?case by simp
next
  case prems: (2 a b alo ahi blo bhi queue matching_blocks i y j k)
  from prems have "find_longest_match a b alo ahi blo bhi = (i, j, k)" by simp
  from find_longest_match_bounds [OF this \<open>k \<noteq> 0\<close>] \<open>k \<noteq> 0\<close> show ?case by auto
next
  case 3
  then show ?case by simp
qed

declare collect_blocks.simps [simp del]

text \<open>The pass that collapses adjacent blocks, over the sorted blocks.\<close>

fun collapse_step ::
  "nat \<times> nat \<times> nat \<Rightarrow> (nat \<times> nat \<times> nat) \<times> (nat \<times> nat \<times> nat) list
     \<Rightarrow> (nat \<times> nat \<times> nat) \<times> (nat \<times> nat \<times> nat) list" where
  "collapse_step (i2, j2, k2) ((i1, j1, k1), non_adjacent) =
     (if i1 + k1 = i2 \<and> j1 + k1 = j2 then ((i1, j1, k1 + k2), non_adjacent)
      else ((i2, j2, k2), if k1 \<noteq> 0 then non_adjacent @ [(i1, j1, k1)] else non_adjacent))"

definition get_matching_blocks :: "'a list \<Rightarrow> 'a list \<Rightarrow> (nat \<times> nat \<times> nat) list" where
  "get_matching_blocks a b =
     (let la = length a; lb = length b;
          matching_blocks = sort (collect_blocks a b [(0, la, 0, lb)] []);
          ((i1, j1, k1), non_adjacent) = fold collapse_step matching_blocks ((0, 0, 0), [])
      in (if k1 \<noteq> 0 then non_adjacent @ [(i1, j1, k1)] else non_adjacent) @ [(la, lb, 0)])"

datatype tag = Replace | Delete | Insert | Equal

type_synonym opcode = "tag \<times> nat \<times> nat \<times> nat \<times> nat"

fun opcode_step :: "nat \<times> nat \<times> nat \<Rightarrow> nat \<times> nat \<times> opcode list \<Rightarrow> nat \<times> nat \<times> opcode list" where
  "opcode_step (ai, bj, sz) (i, j, answer) =
     (let answer1 =
            (if i < ai \<and> j < bj then answer @ [(Replace, i, ai, j, bj)]
             else if i < ai then answer @ [(Delete, i, ai, j, bj)]
             else if j < bj then answer @ [(Insert, i, ai, j, bj)]
             else answer)
      in (ai + sz, bj + sz,
          if sz \<noteq> 0 then answer1 @ [(Equal, ai, ai + sz, bj, bj + sz)] else answer1))"

definition get_opcodes :: "'a list \<Rightarrow> 'a list \<Rightarrow> opcode list" where
  "get_opcodes a b = snd (snd (fold opcode_step (get_matching_blocks a b) (0, 0, [])))"

section \<open>TextComparator\<close>

text \<open>
  \<open>str.splitlines()\<close>: a line ends at a line feed, a carriage return (with the line feed
  that follows it, if any), a vertical tab, a form feed, a file, group or record separator
  or a next-line character; the boundary is dropped, and no empty last line is produced.
  Characters are the code points below 256, so the two Unicode separators beyond are not
  in the model.
\<close>

definition is_line_boundary :: "char \<Rightarrow> bool" where
  "is_line_boundary c \<longleftrightarrow>
     c = CHR 0x0A \<or> c = CHR 0x0B \<or> c = CHR 0x0C \<or> c = CHR 0x0D
     \<or> c = CHR 0x1C \<or> c = CHR 0x1D \<or> c = CHR 0x1E \<or> c = CHR 0x85"

fun split_from :: "string \<Rightarrow> string \<Rightarrow> string list" where
  "split_from line [] = (if line = [] then [] else [line])"
| "split_from line [c] = (if is_line_boundary c then [line] else [line @ [c]])"
| "split_from line (c # d # rest) =
     (if c = CHR 0x0D \<and> d = CHR 0x0A then line # split_from [] rest
      else if is_line_boundary c then line # split_from [] (d # rest)
      else split_from (line @ [c]) (d # rest))"

definition splitlines :: "string \<Rightarrow> string list" where
  "splitlines s = split_from [] s"

text \<open>\<open>str(n)\<close> for the integers an f-string formats.\<close>

fun str_nat :: "nat \<Rightarrow> string" where
  "str_nat n = (if n < 10 then [''0123456789'' ! n] else str_nat (n div 10) @ [''0123456789'' ! (n mod 10)])"

declare str_nat.simps [simp del]

definition str_int :: "int \<Rightarrow> string" where
  "str_int i = (if i < 0 then ''-'' @ str_nat (nat (- i)) else str_nat (nat i))"

text \<open>The double quote of the messages.\<close>

definition dq :: string where
  "dq = [CHR 0x22]"

record page =
  page_num :: "int option"
  page_text :: "string option"

record text_config =
  strict :: "bool option"
  ignore_whitespace :: "bool option"
  ignore_case :: "bool option"
  ignore_punctuation :: "bool option"
  character_level :: "bool option"

text \<open>
  The records of one opcode in \<open>_compare_page_text\<close>.  A replaced block is reported by its
  first line pair only, which the two nested loops single out.
\<close>

fun describe :: "string list \<Rightarrow> string list \<Rightarrow> int \<Rightarrow> opcode \<Rightarrow> string list" where
  "describe ref_lines new_lines pnum (Equal, i1, i2, j1, j2) = []"
| "describe ref_lines new_lines pnum (Replace, i1, i2, j1, j2) =
     concat (map (\<lambda>i. concat (map (\<lambda>j.
        if i = i1 \<and> j = j1
        then [''On page '' @ str_int pnum @ '', line '' @ str_nat (i + 1)
              @ '', the text was changed from '' @ dq @ ref_lines ! i @ dq
              @ '' to '' @ dq @ new_lines ! j @ dq @ ''.'']
        else []) [j1..<j2])) [i1..<i2])"
| "describe ref_lines new_lines pnum (Delete, i1, i2, j1, j2) =
     map (\<lambda>i. ''On page '' @ str_int pnum @ '', line '' @ str_nat (i + 1)
            @ '', the text '' @ dq @ ref_lines ! i @ dq @ '' was removed.'') [i1..<i2]"
| "describe ref_lines new_lines pnum (Insert, i1, i2, j1, j2) =
     map (\<lambda>j. ''On page '' @ str_int pnum @ '', line '' @ str_nat (j + 1)
            @ '', the text '' @ dq @ new_lines ! j @ dq @ '' was added.'') [j1..<j2]"

definition compare_page_text :: "string \<Rightarrow> string \<Rightarrow> int \<Rightarrow> string list" where
  "compare_page_text ref_text new_text pnum =
     (let ref_lines = splitlines ref_text;
          new_lines = splitlines new_text
      in concat (map (describe ref_lines new_lines pnum) (get_opcodes ref_lines new_lines)))"

text \<open>\<open>{page['page_num']: page['text'] for page in pages}\<close>, which raises on a missing key.\<close>

fun text_map :: "page list \<Rightarrow> (int \<times> string) list \<Rightarrow> py_error + (int \<times> string) list" where
  "text_map [] d = Inr d"
| "text_map (p # ps) d =
     (case page_num p of
        None \<Rightarrow> Inl (KeyError ''page_num'')
      | Some n \<Rightarrow>
          (case page_text p of
             None \<Rightarrow> Inl (KeyError ''text'')
           | Some t \<Rightarrow> text_map ps (dict_set d n t)))"

definition compare_page ::
  "(int \<times> string) list \<Rightarrow> (int \<times> string) list \<Rightarrow> int \<Rightarrow> string list" where
  "compare_page doc1_text_map doc2_text_map pnum =
     (case map_of doc1_text_map pnum of
        None \<Rightarrow> [''On page '' @ str_int pnum @ '', a new page was added.'']
      | Some ref_text \<Rightarrow>
          (case map_of doc2_text_map pnum of
             None \<Rightarrow> [''On page '' @ str_int pnum @ '', a page was removed.'']
           | Some new_text \<Rightarrow> compare_page_text ref_text new_text pnum))"

definition text_compare :: "page list \<Rightarrow> page list \<Rightarrow> text_config \<Rightarrow> py_error + string list" where
  "text_compare doc1_pages doc2_pages config =
     (case text_map doc1_pages [] of
        Inl e \<Rightarrow> Inl e
      | Inr doc1_text_map \<Rightarrow>
          (case text_map doc2_pages [] of
             Inl e \<Rightarrow> Inl e
           | Inr doc2_text_map \<Rightarrow>
               let all_page_numbers = sort (remdups (map fst doc1_text_map @ map fst doc2_text_map))
               in Inr (concat (map (compare_page doc1_text_map doc2_text_map) all_page_numbers))))"

subsection \<open>Measures for matching a sequence against itself\<close>

text \<open>
  The length of the run of elements with indices in \<open>b2j\<close> that ends just before index \<open>j\<close>
  and does not reach below \<open>lo\<close>, and the entry of a row dict for the index before \<open>j\<close>,
  as \<open>j2len.get(j - 1, 0)\<close> reads it.
\<close>

fun run_before :: "'a list \<Rightarrow> nat \<Rightarrow> nat \<Rightarrow> nat" where
  "run_before b lo 0 = 0"
| "run_before b lo (Suc j) = (if j < lo \<or> b2j b (b ! j) = [] then 0 else run_before b lo j + 1)"

declare run_before.simps [simp del]

definition prev_len :: "(nat \<rightharpoonup> nat) \<Rightarrow> nat \<Rightarrow> nat" where
  "prev_len m j = (if j = 0 then 0 else case m (j - 1) of None \<Rightarrow> 0 | Some v \<Rightarrow> v)"

subsection \<open>Sample pages\<close>

text \<open>The page texts \<open>"A\nB\nC"\<close> and \<open>"A\nX\nC"\<close>.\<close>

definition ref_page :: string where
  "ref_page = [CHR ''A'', CHR 0x0A, CHR ''B'', CHR 0x0A, CHR ''C'']"

definition new_page :: string where
  "new_page = [CHR ''A'', CHR 0x0A, CHR ''X'', CHR 0x0A, CHR ''C'']"

definition mk_page :: "int \<Rightarrow> string \<Rightarrow> page" where
  "mk_page n t = \<lparr>page_num = Some n, page_text = Some t\<rparr>"

section \<open>ImageComparator\<close>

text \<open>
  An image of an extracted document is a dict; the parser writes all five keys.  The byte
  payload is a list of characters.  The digests of \<open>hashlib\<close> are taken as given functions
  from the payload to the hexadecimal digest.
\<close>

record image =
  img_data :: "string option"
  img_ext :: "string option"
  img_width :: "int option"
  img_height :: "int option"
  img_page :: "int option"

record hashlib =
  sha256 :: "string \<Rightarrow> string"
  md5 :: "string \<Rightarrow> string"

record image_config =
  img_method :: "string option"
  hash_algorithm :: "string option"
  pixel_perfect :: "bool option"
  compression_check :: "bool option"

text \<open>The truth value of the dict: false only when it has no key at all.\<close>

definition image_truthy :: "image \<Rightarrow> bool" where
  "image_truthy img \<longleftrightarrow>
     img_data img \<noteq> None \<or> img_ext img \<noteq> None \<or> img_width img \<noteq> None
     \<or> img_height img \<noteq> None \<or> img_page img \<noteq> None"

text \<open>\<open>hash_func(img["data"]).hexdigest() if img else None\<close>\<close>

definition image_hash :: "(string \<Rightarrow> string) \<Rightarrow> image \<Rightarrow> py_error + string option" where
  "image_hash hash_func img =
     (if image_truthy img
      then (case img_data img of None \<Rightarrow> Inl (KeyError ''data'') | Some d \<Rightarrow> Inr (Some (hash_func d)))
      else Inr None)"

text \<open>\<open>len(img["data"]) if img else 0\<close>, read after the hash, when the key is known to exist.\<close>

definition image_size :: "image \<Rightarrow> int" where
  "image_size img = (if image_truthy img then int (length (opt_get (img_data img) [])) else 0)"

definition hash_value :: "string option \<Rightarrow> pyval" where
  "hash_value h = (case h of None \<Rightarrow> VNone | Some s \<Rightarrow> VStr s)"

fun compare_image_pairs ::
  "(string \<Rightarrow> string) \<Rightarrow> nat \<Rightarrow> image list \<Rightarrow> image list \<Rightarrow> pyval pydict list
     \<Rightarrow> py_error + pyval pydict list" where
  "compare_image_pairs hash_func idx (img1 # images1) (img2 # images2) diffs_so_far =
     (case image_hash hash_func img1 of
        Inl e \<Rightarrow> Inl e
      | Inr hash1 \<Rightarrow>
          (case image_hash hash_func img2 of
             Inl e \<Rightarrow> Inl e
           | Inr hash2 \<Rightarrow>
               compare_image_pairs hash_func (idx + 1) images1 images2
                 (if hash1 \<noteq> hash2
                  then diffs_so_far @
                       [[(''index'', VInt (int idx)), (''reference_hash'', hash_value hash1),
                         (''new_hash'', hash_value hash2), (''identical'', VBool False),
                         (''reference_size'', VInt (image_size img1)),
                         (''new_size'', VInt (image_size img2))]]
                  else diffs_so_far)))"
| "compare_image_pairs hash_func idx [] images2 diffs_so_far = Inr diffs_so_far"
| "compare_image_pairs hash_func idx images1 [] diffs_so_far = Inr diffs_so_far"

definition image_compare ::
  "hashlib \<Rightarrow> image list \<Rightarrow> image list \<Rightarrow> image_config \<Rightarrow> py_error + pyval pydict list" where
  "image_compare lib images1 images2 config =
     (let algorithm = opt_get (hash_algorithm config) ''sha256'';
          hash_func = (if algorithm = ''sha256'' then sha256 lib else md5 lib)
      in case compare_image_pairs hash_func 0 images1 images2 [] of
           Inl e \<Rightarrow> Inl e
         | Inr found \<Rightarrow>
             Inr (if length images1 \<noteq> length images2
                  then found @
                       [[(''type'', VStr ''image_count_mismatch''),
                         (''reference_count'', VInt (int (length images1))),
                         (''new_count'', VInt (int (length images2)))]]
                  else found))"

section \<open>Sensitivity profiles (config/settings.py)\<close>

record layout_config =
  position_tolerance :: "real option"
  layout_size_tolerance :: "real option"
  margin_check :: "bool option"
  spacing_check :: "bool option"

record sensitivity_config =
  text_profile :: text_config
  font_profile :: font_config
  image_profile :: image_config
  layout_profile :: layout_config

definition high_profile :: sensitivity_config where
  "high_profile =
       \<lparr>text_profile = \<lparr>strict = Some True, ignore_whitespace = Some False, ignore_case = Some False,
                        ignore_punctuation = Some False, character_level = Some True\<rparr>,
        font_profile = \<lparr>size_tolerance = Some 0.1, style_check = Some True, family_check = Some True,
                        color_check = Some True, weight_check = Some True\<rparr>,
        image_profile = \<lparr>img_method = Some ''binary'', hash_algorithm = Some ''sha256'',
                         pixel_perfect = Some True, compression_check = Some True\<rparr>,
        layout_profile = \<lparr>position_tolerance = Some 1, layout_size_tolerance = Some 1,
                          margin_check = Some True, spacing_check = Some True\<rparr>\<rparr>"

definition medium_profile :: sensitivity_config where
  "medium_profile =
       \<lparr>text_profile = \<lparr>strict = Some True, ignore_whitespace = Some True, ignore_case = Some False,
                        ignore_punctuation = Some False, character_level = Some False\<rparr>,
        font_profile = \<lparr>size_tolerance = Some 0.5, style_check = Some True, family_check = Some True,
                        color_check = Some False, weight_check = Some False\<rparr>,
        image_profile = \<lparr>img_method = Some ''binary'', hash_algorithm = Some ''md5'',
                         pixel_perfect = Some False, compression_check = Some False\<rparr>,
        layout_profile = \<lparr>position_tolerance = Some 5, layout_size_tolerance = Some 5,
                          margin_check = Some False, spacing_check = Some False\<rparr>\<rparr>"

definition low_profile :: sensitivity_config where
  "low_profile =
       \<lparr>text_profile = \<lparr>strict = Some False, ignore_whitespace = Some True, ignore_case = Some True,
                        ignore_punctuation = Some True, character_level = Some False\<rparr>,
        font_profile = \<lparr>size_tolerance = Some 1.0, style_check = Some False, family_check = Some False,
                        color_check = Some False, weight_check = Some False\<rparr>,
        image_profile = \<lparr>img_method = Some ''binary'', hash_algorithm = Some ''md5'',
                         pixel_perfect = Some False, compression_check = Some False\<rparr>,
        layout_profile = \<lparr>position_tolerance = Some 10, layout_size_tolerance = Some 10,
                          margin_check = Some False, spacing_check = Some False\<rparr>\<rparr>"

definition SENSITIVITY_LEVELS :: "sensitivity_config pydict" where
  "SENSITIVITY_LEVELS =
     [(''high'', high_profile), (''medium'', medium_profile), (''low'', low_profile)]"

text \<open>An unknown level falls back to the medium profile.\<close>

definition get_sensitivity_config :: "string \<Rightarrow> sensitivity_config" where
  "get_sensitivity_config level = dict_get SENSITIVITY_LEVELS level medium_profile"

section \<open>Extracted documents and the comparison step (neuro\_agent.py)\<close>

text \<open>
  What \<open>PDFParser.parse_pdf\<close> returns: pages, images, fonts and the size of the first page,
  and, when the extraction failed, the error message next to the empty fields it started
  with.  The parser itself works on the file system through PyMuPDF and is taken as a
  given function from the path to this result; it catches every exception.
\<close>

record extracted_document =
  doc_text :: "page list"
  doc_images :: "image list"
  doc_fonts :: "font list"
  doc_page_size :: "(real \<times> real) option"
  doc_error :: "string option"

definition failed_parse :: "string \<Rightarrow> extracted_document" where
  "failed_parse message =
     \<lparr>doc_text = [], doc_images = [], doc_fonts = [], doc_page_size = None,
      doc_error = Some message\<rparr>"

text \<open>
  An entry of \<open>validated_files\<close> and an entry of \<open>parsed_content\<close>: dicts with the keys
  \<open>reference\<close> and \<open>new\<close>, or, for the latter, with the key \<open>error\<close>.
\<close>

record file_paths =
  reference_path :: "string option"
  new_path :: "string option"

record content =
  content_error :: "string option"
  content_reference :: "extracted_document option"
  content_new :: "extracted_document option"

text \<open>\<open>str(e)\<close> of a caught exception; a \<open>KeyError\<close> prints its key in quotes.\<close>

fun str_error :: "py_error \<Rightarrow> string" where
  "str_error (KeyError k) = [CHR 0x27] @ k @ [CHR 0x27]"
| "str_error (TypeError m) = m"
| "str_error (ValueError m) = m"
| "str_error ZeroDivisionError = ''division by zero''"

definition parse_file :: "(string \<Rightarrow> extracted_document) \<Rightarrow> file_paths \<Rightarrow> content" where
  "parse_file parse_pdf paths =
     (case reference_path paths of
        None \<Rightarrow> \<lparr>content_error = Some (str_error (KeyError ''reference'')),
                 content_reference = None, content_new = None\<rparr>
      | Some r \<Rightarrow>
          (case new_path paths of
             None \<Rightarrow> \<lparr>content_error = Some (str_error (KeyError ''new'')),
                      content_reference = None, content_new = None\<rparr>
           | Some n \<Rightarrow> \<lparr>content_error = None, content_reference = Some (parse_pdf r),
                         content_new = Some (parse_pdf n)\<rparr>))"

definition parse_pdfs ::
  "(string \<Rightarrow> extracted_document) \<Rightarrow> file_paths pydict \<Rightarrow> content pydict \<times> nat" where
  "parse_pdfs parse_pdf validated_files =
     (let parsed_content =
            fold (\<lambda>(filename, paths) d. dict_set d filename (parse_file parse_pdf paths))
              validated_files []
      in (parsed_content, length (filter (\<lambda>(filename, c). content_error c = None) parsed_content)))"

datatype file_result =
    ErrorPayload string
  | Differences (text_records: "string list") (image_records: "string list")
      (font_records: "string list")

record change_summary =
  total_files :: int
  files_with_changes :: int
  total_changes :: int

text \<open>The body of the \<open>try\<close> for one file: the three lists of records, or the exception.\<close>

definition compare_file ::
  "content \<Rightarrow> sensitivity_config \<Rightarrow> py_error + string list \<times> string list \<times> string list" where
  "compare_file c config =
     (case content_reference c of
        None \<Rightarrow> Inl (KeyError ''reference'')
      | Some ref \<Rightarrow>
          (case content_new c of
             None \<Rightarrow> Inl (KeyError ''new'')
           | Some new \<Rightarrow>
               (case text_compare (doc_text ref) (doc_text new) (text_profile config) of
                  Inl e \<Rightarrow> Inl e
                | Inr text_diff \<Rightarrow>
                    let image_diff_count = \<bar>int (length (doc_images ref)) - int (length (doc_images new))\<bar>;
                        image_diff = (if image_diff_count > 0
                                      then [str_int image_diff_count @ '' image(s) changed.''] else []);
                        font_diff_count = \<bar>int (length (doc_fonts ref)) - int (length (doc_fonts new))\<bar>;
                        font_diff = (if font_diff_count > 0
                                     then [str_int font_diff_count @ '' font(s) changed.''] else [])
                    in Inr (text_diff, image_diff, font_diff))))"

fun compare_entry ::
  "sensitivity_config \<Rightarrow> string \<times> content \<Rightarrow> file_result pydict \<times> change_summary
     \<Rightarrow> file_result pydict \<times> change_summary" where
  "compare_entry config (filename, c) (all_differences, summary) =
     (case content_error c of
        Some e \<Rightarrow> (dict_set all_differences filename (ErrorPayload e), summary)
      | None \<Rightarrow>
          let summary1 = summary\<lparr>total_files := total_files summary + 1\<rparr>
          in case compare_file c config of
               Inl e \<Rightarrow> (dict_set all_differences filename (ErrorPayload (str_error e)), summary1)
             | Inr (text_diff, image_diff, font_diff) \<Rightarrow>
                 let total_diffs = int (length text_diff) + int (length image_diff)
                                   + int (length font_diff)
                 in if total_diffs > 0
                    then (dict_set all_differences filename
                            (Differences text_diff image_diff font_diff),
                          summary1\<lparr>files_with_changes := files_with_changes summary1 + 1,
                                   total_changes := total_changes summary1 + total_diffs\<rparr>)
                    else (all_differences, summary1))"

definition compare_content ::
  "content pydict \<Rightarrow> sensitivity_config \<Rightarrow> file_result pydict \<times> change_summary" where
  "compare_content parsed_content config =
     fold (compare_entry config) parsed_content
       ([], \<lparr>total_files = 0, files_with_changes = 0, total_changes = 0\<rparr>)"

subsection \<open>A sample run with a failed extraction\<close>

text \<open>
  A parser that fails on the reference file and extracts one page from any other file, and
  the validated files of a run with the single file \<open>a.pdf\<close>.
\<close>

definition sample_parser :: "string \<Rightarrow> extracted_document" where
  "sample_parser path =
     (if path = ''ref/a.pdf'' then failed_parse ''cannot open broken document''
      else \<lparr>doc_text = [mk_page 1 ''hello''], doc_images = [], doc_fonts = [],
            doc_page_size = Some (612, 792), doc_error = None\<rparr>)"

definition sample_validated :: "file_paths pydict" where
  "sample_validated =
     [(''a.pdf'', \<lparr>reference_path = Some ''ref/a.pdf'', new_path = Some ''new/a.pdf''\<rparr>)]"

subsection \<open>Documents as the parser extracts them\<close>

text \<open>
  The parser writes the page number and the text of every page, the name and the size of
  every font and the payload of every image.
\<close>

definition page_ok :: "page \<Rightarrow> bool" where
  "page_ok p \<longleftrightarrow> page_num p \<noteq> None \<and> page_text p \<noteq> None"

definition font_ok :: "font \<Rightarrow> bool" where
  "font_ok f \<longleftrightarrow> font_name f \<noteq> None \<and> font_size f \<noteq> None"

definition image_ok :: "image \<Rightarrow> bool" where
  "image_ok img \<longleftrightarrow> img_data img \<noteq> None"

definition extracted_ok :: "extracted_document \<Rightarrow> bool" where
  "extracted_ok doc \<longleftrightarrow>
     list_all page_ok (doc_text doc) \<and> list_all font_ok (doc_fonts doc)
     \<and> list_all image_ok (doc_images doc)"

definition sample_document :: extracted_document where
  "sample_document =
     \<lparr>doc_text = [mk_page 1 ref_page, mk_page 2 ''second page''],
      doc_images = [\<lparr>img_data = Some ''PNG'', img_ext = Some ''png'', img_width = Some 2,
                     img_height = Some 2, img_page = Some 1\<rparr>],
      doc_fonts = [(mk_font ''Arial'' 10)\<lparr>font_color := Some (VInt 0), font_flags := Some (VInt 4)\<rparr>],
      doc_page_size = Some (612, 792), doc_error = None\<rparr>"

text \<open>Stand-ins for the two digests, enough to run the image comparator on the sample.\<close>

definition sample_hashlib :: hashlib where
  "sample_hashlib = \<lparr>sha256 = (\<lambda>d. ''sha256:'' @ d), md5 = (\<lambda>d. ''md5:'' @ d)\<rparr>"

section \<open>Dictionaries: proofs\<close>

lemma dict_set_keys: "fst ` set (dict_set d k v) = insert k (fst ` set d)"
  by (induction d k v rule: dict_set.induct) auto



lemma map_of_dict_set: "map_of (dict_set d k v) = (map_of d)(k \<mapsto> v)"
  by (induction d k v rule: dict_set.induct) auto

lemma fold_dict_set_untouched:
  "k \<notin> key ` set fs \<Longrightarrow> map_of (fold (\<lambda>f d. dict_set d (key f) f) fs d) k = map_of d k"
  by (induction fs arbitrary: d) (auto simp: map_of_dict_set)

lemma fold_dict_set_lookup:
  "distinct (map key fs) \<Longrightarrow> f \<in> set fs \<Longrightarrow>
   map_of (fold (\<lambda>f d. dict_set d (key f) f) fs d) (key f) = Some f"
proof (induction fs arbitrary: d)
  case Nil
  then show ?case by simp
next
  case (Cons g fs)
  show ?case
  proof (cases "f = g")
    case True
    with Cons.prems have "key g \<notin> key ` set fs" by auto
    from fold_dict_set_untouched [OF this] show ?thesis
      by (simp add: True map_of_dict_set)
  next
    case False
    with Cons.prems have "distinct (map key fs)" "f \<in> set fs" by auto
    from Cons.IH [OF this] show ?thesis by simp
  qed
qed

section \<open>Similarity score: proofs\<close>

lemma fold_weight_sum:
  "fold (\<lambda>diff acc. acc + weight_of diff) ds acc = acc + sum_list (map weight_of ds)"
  by (induction ds arbitrary: acc) simp_all

lemma weight_of_nonneg: "0 \<le> weight_of d"
  by (simp add: weight_of_def dict_get_def weights_def split: pyval.splits option.splits)

lemma weight_of_category:
  "dict_get d ''type'' (VStr ''text'') = VStr ''text'' \<Longrightarrow> weight_of d = 1"
  "dict_get d ''type'' (VStr ''text'') = VStr ''image'' \<Longrightarrow> weight_of d = 0.8"
  "dict_get d ''type'' (VStr ''text'') = VStr ''font'' \<Longrightarrow> weight_of d = 0.3"
  "dict_get d ''type'' (VStr ''text'') = VStr ''layout'' \<Longrightarrow> weight_of d = 0.5"
  by (simp_all add: weight_of_def dict_get_def weights_def)

lemma sum_weights_by_category:
  "list_all known_category ds \<Longrightarrow>
   sum_list (map weight_of ds) =
     1.0 * real (count_type ''text'' ds) + 0.8 * real (count_type ''image'' ds)
     + 0.3 * real (count_type ''font'' ds) + 0.5 * real (count_type ''layout'' ds)"
proof (induction ds)
  case Nil
  show ?case by (simp add: count_type_def)
next
  case (Cons d ds)
  from Cons.prems have k: "known_category d" and rest: "list_all known_category ds"
    by simp_all
  note IH = Cons.IH [OF rest]
  from k consider
      "dict_get d ''type'' (VStr ''text'') = VStr ''text''"
    | "dict_get d ''type'' (VStr ''text'') = VStr ''image''"
    | "dict_get d ''type'' (VStr ''text'') = VStr ''font''"
    | "dict_get d ''type'' (VStr ''text'') = VStr ''layout''"
    by (auto simp: known_category_def)
  then show ?case
    by cases (simp_all add: IH weight_of_category count_type_def algebra_simps)
qed


lemma similarity_score_positive:
  "0 < total_elements \<Longrightarrow>
   calculate_similarity_score ds total_elements =
     Inr (max 0 (min 1 (1 - sum_list (map weight_of ds) / of_int total_elements)))"
  by (simp add: calculate_similarity_score_def py_truediv_def fold_weight_sum)

text \<open>
  Claim C6.  For every list of difference records and every positive \<open>total_elements\<close> the
  similarity score is one minus the sum of the records' category weights divided by
  \<open>total_elements\<close>, clamped to the interval from 0 to 1; the weights are 1.0 for text, 0.8 for
  image, 0.3 for font and 0.5 for layout, so that on records of these four categories the sum
  is the weighted count of the categories.
\<close>

theorem similarity_score_formula:
  assumes "0 < total_elements"
  shows "\<exists>score.
      calculate_similarity_score ds total_elements = Inr score
    \<and> score = max 0 (min 1 (1 - sum_list (map weight_of ds) / of_int total_elements))
    \<and> 0 \<le> score \<and> score \<le> 1
    \<and> (list_all known_category ds \<longrightarrow>
         sum_list (map weight_of ds) =
           1.0 * real (count_type ''text'' ds)
         + 0.8 * real (count_type ''image'' ds)
         + 0.3 * real (count_type ''font'' ds)
         + 0.5 * real (count_type ''layout'' ds))"
  using similarity_score_positive [OF assms, of ds] sum_weights_by_category [of ds]
  by simp

theorem similarity_score_formula_witness:
  "(0::int) < 4
   \<and> list_all known_category [[(''type'', VStr ''text'')], [(''type'', VStr ''font'')]]
   \<and> calculate_similarity_score [[(''type'', VStr ''text'')], [(''type'', VStr ''font'')]] 4
       = Inr (27 / 40)"
proof -
  have pos: "(0::int) < 4" by simp
  have known: "list_all known_category [[(''type'', VStr ''text'')], [(''type'', VStr ''font'')]]"
    by (simp add: known_category_def dict_get_def)
  have cnt: "count_type ''text'' [[(''type'', VStr ''text'')], [(''type'', VStr ''font'')]] = 1"
    "count_type ''image'' [[(''type'', VStr ''text'')], [(''type'', VStr ''font'')]] = 0"
    "count_type ''font'' [[(''type'', VStr ''text'')], [(''type'', VStr ''font'')]] = 1"
    "count_type ''layout'' [[(''type'', VStr ''text'')], [(''type'', VStr ''font'')]] = 0"
    by (simp_all add: count_type_def dict_get_def)
  from similarity_score_formula [OF pos, of "[[(''type'', VStr ''text'')], [(''type'', VStr ''font'')]]"]
  obtain score where
    "calculate_similarity_score [[(''type'', VStr ''text'')], [(''type'', VStr ''font'')]] 4 = Inr score"
    "score = max 0 (min 1 (1 - sum_list (map weight_of [[(''type'', VStr ''text'')], [(''type'', VStr ''font'')]]) / of_int 4))"
    "sum_list (map weight_of [[(''type'', VStr ''text'')], [(''type'', VStr ''font'')]]) = 1.0 * real 1 + 0.8 * real 0 + 0.3 * real 1 + 0.5 * real 0"
    using known cnt by auto
  then show ?thesis using known by simp
qed

text \<open>
  Claim C9.  With \<open>total_elements\<close> equal to 0 the score is exactly 1.0 for every list of
  difference records, and the division of the function never raises ZeroDivisionError,
  whatever the arguments.
\<close>

theorem similarity_score_empty_corpus:
  "calculate_similarity_score ds 0 = Inr 1
   \<and> calculate_similarity_score ds' total_elements \<noteq> Inl ZeroDivisionError"
  by (simp add: calculate_similarity_score_def py_truediv_def)

section \<open>Pattern store: proofs\<close>

lemma take_last_length: "length (take_last n xs) \<le> n"
  by (simp add: take_last_def)

lemma take_last_append: "take_last n (take_last n xs @ ys) = take_last n (xs @ ys)"
  by (cases "length xs \<le> n") (simp_all add: take_last_def add.commute)

lemma take_last_id: "length xs \<le> n \<Longrightarrow> take_last n xs = xs"
  by (simp add: take_last_def)

lemma update_statistics_entries:
  "stat_entries (update_statistics clk m v s) metric =
     (if metric = m then take_last 1000 (stat_entries s m @ [\<lparr>st_value = v, st_timestamp = clk (ticks s)\<rparr>])
      else stat_entries s metric)"
  by (simp add: update_statistics_def stat_entries_def time_time_def save_data_def take_last_def
        Let_def split: option.splits)

lemma update_statistics_ticks: "ticks (update_statistics clk m v s) = ticks s + 2"
  by (simp add: update_statistics_def time_time_def save_data_def Let_def)

lemma run_updates_entries:
  "length (stat_entries s metric) \<le> 1000 \<Longrightarrow>
   stat_entries (run_updates clk calls s) metric =
     take_last 1000 (stat_entries s metric @ recorded clk (ticks s) calls metric)"
proof (induction calls arbitrary: s)
  case Nil
  then show ?case by (simp add: take_last_id)
next
  case (Cons c calls)
  obtain m v where c: "c = (m, v)" by (cases c)
  let ?s = "update_statistics clk m v s"
  have bound: "length (stat_entries ?s metric) \<le> 1000"
    using Cons.prems by (simp add: update_statistics_entries take_last_length)
  show ?case
    using Cons.IH [OF bound]
    by (simp add: c update_statistics_entries update_statistics_ticks take_last_append)
qed


text \<open>
  Claim C10.  For every metric and every sequence of \<open>update_statistics\<close> calls on a store
  whose list for the metric holds at most 1000 entries (as the empty store does), the list
  never exceeds 1000 entries afterwards, and it holds the 1000 most recent entries: the
  last 1000 of the old entries followed by the entries the calls recorded for the metric.
\<close>

theorem statistics_bounded:
  assumes "length (stat_entries s metric) \<le> 1000"
  shows "length (stat_entries (run_updates clk calls s) metric) \<le> 1000
       \<and> stat_entries (run_updates clk calls s) metric =
           take_last 1000 (stat_entries s metric @ recorded clk (ticks s) calls metric)"
  using run_updates_entries [OF assms, of clk calls] by (simp add: take_last_length)

theorem statistics_bounded_witness:
  "length (stat_entries full_store ''files_processed'') \<le> 1000
   \<and> stat_entries (run_updates tick_clock [(''files_processed'', VNum 7)] full_store) ''files_processed''
       = replicate 999 \<lparr>st_value = VNum 1, st_timestamp = 0\<rparr> @ [\<lparr>st_value = VNum 7, st_timestamp = 0\<rparr>]"
proof -
  have h: "length (stat_entries full_store ''files_processed'') \<le> 1000"
    by (simp add: full_store_def fresh_module_def stat_entries_def)
  show ?thesis
    using h statistics_bounded [OF h, of tick_clock "[(''files_processed'', VNum 7)]"]
    by (simp add: full_store_def fresh_module_def stat_entries_def take_last_def tick_clock_def)
qed

lemma update_patterns_new:
  assumes "patterns s (extract_pattern_key d) = None"
  shows "patterns (update_patterns clk d s) (extract_pattern_key d) =
           Some \<lparr>count = 0, first_seen = clk (ticks s), last_seen = clk (ticks s + 1),
                 examples = [\<lparr>ex_timestamp = clk (ticks s + 2), ex_data = d\<rparr>], metadata = d\<rparr>"
    and "ticks (update_patterns clk d s) = ticks s + 4"
  using assms
  by (simp_all add: update_patterns_def time_time_def save_data_def update_frequent_changes_def
        Let_def split: option.splits)

lemma update_patterns_known:
  assumes "patterns s (extract_pattern_key d) = Some p"
  shows "patterns (update_patterns clk d s) (extract_pattern_key d) =
           Some (p\<lparr>count := count p + 1, last_seen := clk (ticks s),
                   examples :=
                     (if length (examples p) \<ge> 10
                      then tl (examples p @ [\<lparr>ex_timestamp = clk (ticks s + 1), ex_data = d\<rparr>])
                      else examples p @ [\<lparr>ex_timestamp = clk (ticks s + 1), ex_data = d\<rparr>])\<rparr>)"
    and "ticks (update_patterns clk d s) = ticks s + 3"
  using assms
  by (simp_all add: update_patterns_def time_time_def save_data_def update_frequent_changes_def
        Let_def split: option.splits)

lemma update_patterns_twice:
  assumes "patterns s (extract_pattern_key d) = None"
  shows "patterns (update_patterns clk d (update_patterns clk d s)) (extract_pattern_key d) =
           Some \<lparr>count = 1, first_seen = clk (ticks s), last_seen = clk (ticks s + 4),
                 examples = [\<lparr>ex_timestamp = clk (ticks s + 2), ex_data = d\<rparr>,
                             \<lparr>ex_timestamp = clk (ticks s + 5), ex_data = d\<rparr>],
                 metadata = d\<rparr>"
  using update_patterns_known [OF update_patterns_new(1) [OF assms, of clk], of clk]
  by (simp add: update_patterns_new(2) [OF assms] add.commute)

text \<open>
  Claim C1.  Recording the same comparison data twice, starting from a store without the
  pattern key, leaves the pattern with \<open>first_seen\<close> as the first recording set it and
  \<open>last_seen\<close> as read by the second recording, but with \<open>count\<close> equal to 1, not 2: the
  first recording creates the pattern with \<open>count\<close> 0 although it stores the first example.
  Both implementations of the module count this way.
\<close>

theorem update_patterns_twice_count:
  "patterns (update_patterns tick_clock sample_data (update_patterns tick_clock sample_data fresh_module))
     ''text_minor'' =
     Some \<lparr>count = 1, first_seen = 0, last_seen = 4,
           examples = [\<lparr>ex_timestamp = 2, ex_data = sample_data\<rparr>,
                       \<lparr>ex_timestamp = 5, ex_data = sample_data\<rparr>],
           metadata = sample_data\<rparr>
   \<and> m_patterns (mock_update_patterns tick_clock sample_data (mock_update_patterns tick_clock sample_data fresh_mock))
     ''unknown_unknown'' =
     Some \<lparr>m_count = 1, m_first_seen = 0, m_last_seen = 2, m_data = sample_data\<rparr>"
proof -
  have k: "extract_pattern_key sample_data = ''text_minor''"
    by (simp add: extract_pattern_key_def sample_data_def dict_get_def)
  have none: "patterns fresh_module (extract_pattern_key sample_data) = None"
    by (simp add: fresh_module_def)
  have mk: "mock_extract_pattern_key sample_data = ''unknown_unknown''"
    by (simp add: mock_extract_pattern_key_def sample_data_def dict_get_def)
  have a: "patterns (update_patterns tick_clock sample_data (update_patterns tick_clock sample_data fresh_module))
     ''text_minor'' =
     Some \<lparr>count = 1, first_seen = 0, last_seen = 4,
           examples = [\<lparr>ex_timestamp = 2, ex_data = sample_data\<rparr>,
                       \<lparr>ex_timestamp = 5, ex_data = sample_data\<rparr>],
           metadata = sample_data\<rparr>"
    using update_patterns_twice [OF none, of tick_clock]
    by (simp add: k tick_clock_def fresh_module_def)
  have b: "m_patterns (mock_update_patterns tick_clock sample_data (mock_update_patterns tick_clock sample_data fresh_mock))
     ''unknown_unknown'' =
     Some \<lparr>m_count = 1, m_first_seen = 0, m_last_seen = 2, m_data = sample_data\<rparr>"
    by (simp add: mock_update_patterns_def mk fresh_mock_def tick_clock_def Let_def)
  from a b show ?thesis by simp
qed


lemma clear_old_data_statistics:
  "stat_entries (clear_old_data clk days s) metric =
     filter (\<lambda>e. cutoff_of clk days s < st_timestamp e) (stat_entries s metric)"
  by (simp add: clear_old_data_def stat_entries_def time_time_def save_data_def cutoff_of_def
        Let_def split: option.splits)

lemma clear_old_data_patterns:
  "patterns (clear_old_data clk days s) k =
     (case patterns s k of
        None \<Rightarrow> None
      | Some p \<Rightarrow>
          if filter (\<lambda>ex. cutoff_of clk days s < ex_timestamp ex) (examples p) = []
             \<and> last_seen p < cutoff_of clk days s
          then None
          else Some (p\<lparr>examples := filter (\<lambda>ex. cutoff_of clk days s < ex_timestamp ex) (examples p)\<rparr>))"
  by (simp add: clear_old_data_def time_time_def save_data_def cutoff_of_def
        Let_def split: option.splits)

text \<open>
  Claim C8, amended at the boundary.  For every store and every number of days to keep,
  with the cutoff the clock reading minus that age: the trim keeps, in order, exactly the
  statistics entries stamped strictly after the cutoff, so it removes exactly those stamped
  at or before the cutoff; it removes a pattern iff none of its examples is stamped after
  the cutoff and its \<open>last_seen\<close> is before the cutoff; a pattern with no remaining example
  and \<open>last_seen\<close> at or after the cutoff is kept, with an empty example list.
\<close>

theorem clear_old_data_trims:
  "stat_entries (clear_old_data clk days s) metric =
       filter (\<lambda>e. cutoff_of clk days s < st_timestamp e) (stat_entries s metric)
   \<and> (e \<in> set (stat_entries s metric) \<longrightarrow>
        (e \<notin> set (stat_entries (clear_old_data clk days s) metric)
           \<longleftrightarrow> st_timestamp e \<le> cutoff_of clk days s))
   \<and> (patterns s k = Some p \<longrightarrow>
        (patterns (clear_old_data clk days s) k = None
           \<longleftrightarrow> (\<forall>ex \<in> set (examples p). ex_timestamp ex \<le> cutoff_of clk days s)
               \<and> last_seen p < cutoff_of clk days s))
   \<and> (patterns s k = Some p
          \<and> (\<forall>ex \<in> set (examples p). ex_timestamp ex \<le> cutoff_of clk days s)
          \<and> cutoff_of clk days s \<le> last_seen p \<longrightarrow>
        patterns (clear_old_data clk days s) k = Some (p\<lparr>examples := []\<rparr>))"
proof -
  have ex_iff: "filter (\<lambda>ex. c < ex_timestamp ex) xs = [] \<longleftrightarrow> (\<forall>ex \<in> set xs. ex_timestamp ex \<le> c)"
    for c :: real and xs :: "example list"
    by (auto simp: filter_empty_conv not_less)
  show ?thesis
    by (auto simp: clear_old_data_statistics clear_old_data_patterns ex_iff not_less)
qed

lemma cutoff_aged: "cutoff_of tick_clock 0 aged_store = 100"
  by (simp add: cutoff_of_def tick_clock_def aged_store_def fresh_module_def)

theorem clear_old_data_trims_witness:
  "patterns aged_store ''text_minor'' =
      Some \<lparr>count = 0, first_seen = 10, last_seen = 100,
            examples = [\<lparr>ex_timestamp = 20, ex_data = sample_data\<rparr>], metadata = sample_data\<rparr>
   \<and> ex_timestamp \<lparr>ex_timestamp = 20, ex_data = sample_data\<rparr> \<le> cutoff_of tick_clock 0 aged_store
   \<and> cutoff_of tick_clock 0 aged_store \<le> 100
   \<and> patterns (clear_old_data tick_clock 0 aged_store) ''text_minor'' =
      Some \<lparr>count = 0, first_seen = 10, last_seen = 100, examples = [], metadata = sample_data\<rparr>
   \<and> \<lparr>st_value = VNum 3, st_timestamp = 50\<rparr> \<in> set (stat_entries aged_store ''total_changes'')
   \<and> \<lparr>st_value = VNum 3, st_timestamp = 50\<rparr> \<notin> set (stat_entries (clear_old_data tick_clock 0 aged_store) ''total_changes'')
   \<and> stat_entries (clear_old_data tick_clock 0 aged_store) ''total_changes'' = [\<lparr>st_value = VNum 5, st_timestamp = 150\<rparr>]"
proof -
  have p: "patterns aged_store ''text_minor'' =
      Some \<lparr>count = 0, first_seen = 10, last_seen = 100,
            examples = [\<lparr>ex_timestamp = 20, ex_data = sample_data\<rparr>], metadata = sample_data\<rparr>"
    by (simp add: aged_store_def fresh_module_def)
  have e: "stat_entries aged_store ''total_changes'' =
        [\<lparr>st_value = VNum 3, st_timestamp = 50\<rparr>, \<lparr>st_value = VNum 4, st_timestamp = 100\<rparr>,
         \<lparr>st_value = VNum 5, st_timestamp = 150\<rparr>]"
    by (simp add: aged_store_def fresh_module_def stat_entries_def)
  show ?thesis
    using clear_old_data_trims [of tick_clock 0 aged_store "''total_changes''"
        "\<lparr>st_value = VNum 3, st_timestamp = 50\<rparr>" "''text_minor''"
        "\<lparr>count = 0, first_seen = 10, last_seen = 100,
            examples = [\<lparr>ex_timestamp = 20, ex_data = sample_data\<rparr>], metadata = sample_data\<rparr>"] p e
    by (simp add: cutoff_aged)
qed

text \<open>
  The claim as first stated fails at the boundary: an entry stamped exactly at the cutoff is
  not older than the cutoff, and the trim removes it.
\<close>

theorem clear_old_data_boundary_counterexample:
  "\<lparr>st_value = VNum 4, st_timestamp = 100\<rparr> \<in> set (stat_entries aged_store ''total_changes'')
   \<and> \<not> st_timestamp \<lparr>st_value = VNum 4, st_timestamp = 100\<rparr> < cutoff_of tick_clock 0 aged_store
   \<and> \<lparr>st_value = VNum 4, st_timestamp = 100\<rparr>
        \<notin> set (stat_entries (clear_old_data tick_clock 0 aged_store) ''total_changes'')"
  by (simp add: clear_old_data_statistics cutoff_aged)
     (simp add: aged_store_def fresh_module_def stat_entries_def)

section \<open>Workflow: proofs\<close>

lemma execute_task_called:
  "execute_task a name kw = (called, Inr r) \<Longrightarrow> called = [name]"
  by (auto simp: execute_task_def split: if_splits option.splits)

lemma run_steps_append:
  "run_steps a ctx (xs @ ys) results calls =
     (case run_steps a ctx xs results calls of
        (calls', Inl e) \<Rightarrow> (calls', Inl e)
      | (calls', Inr results') \<Rightarrow> run_steps a ctx ys results' calls')"
  by (induction xs arbitrary: results calls) (auto simp: Let_def split: prod.splits sum.splits)

lemma run_steps_completed:
  "run_steps a ctx xs results calls = (calls', Inr results') \<Longrightarrow>
     calls' = calls @ map step_task xs
   \<and> fst ` set results' = fst ` set results \<union> set (map step_name xs)"
proof (induction xs arbitrary: results calls)
  case Nil
  then show ?case by simp
next
  case (Cons step rest)
  from Cons.prems obtain called r where
    ok: "check_dependencies step results"
    and ex: "execute_task a (step_task step) (fold merge_result results ctx) = (called, Inr r)"
    and rest: "run_steps a ctx rest (dict_set results (step_name step) r) (calls @ called)
                 = (calls', Inr results')"
    by (auto simp: Let_def split: if_splits prod.splits sum.splits)
  from execute_task_called [OF ex] have called: "called = [step_task step]" .
  from Cons.IH [OF rest] show ?case
    by (auto simp: called dict_set_keys)
qed

lemma run_steps_calls_prefix:
  "\<exists>n. fst (run_steps a ctx xs results calls) = calls @ map step_task (take n xs)"
proof (induction xs arbitrary: results calls)
  case Nil
  show ?case by simp
next
  case (Cons step rest)
  show ?case
  proof (cases "check_dependencies step results")
    case False
    then have "fst (run_steps a ctx (step # rest) results calls) = calls @ map step_task (take 0 (step # rest))"
      by simp
    then show ?thesis by blast
  next
    case True
    obtain called out where ex: "execute_task a (step_task step) (fold merge_result results ctx) = (called, out)"
      by (cases "execute_task a (step_task step) (fold merge_result results ctx)")
    show ?thesis
    proof (cases out)
      case (Inl e)
      have "called = [] \<or> called = [step_task step]"
        using ex by (auto simp: execute_task_def split: if_splits option.splits)
      then have "fst (run_steps a ctx (step # rest) results calls) = calls @ map step_task (take 0 (step # rest))
        \<or> fst (run_steps a ctx (step # rest) results calls) = calls @ map step_task (take 1 (step # rest))"
        using True ex Inl by auto
      then show ?thesis by blast
    next
      case (Inr r)
      from execute_task_called [OF ex [unfolded Inr]] have called: "called = [step_task step]" .
      from Cons.IH [of "dict_set results (step_name step) r" "calls @ called"]
      obtain n where "fst (run_steps a ctx rest (dict_set results (step_name step) r) (calls @ called))
          = (calls @ called) @ map step_task (take n rest)" by blast
      then have "fst (run_steps a ctx (step # rest) results calls) = calls @ map step_task (take (Suc n) (step # rest))"
        using True ex Inr called by simp
      then show ?thesis by blast
    qed
  qed
qed

text \<open>
  Claim C2.  The steps run in declaration order, each after a check that its dependencies
  are keys of the results so far.  When the steps before a step \<open>b\<close> have completed and \<open>b\<close>
  declares a dependency that is not the name of any of them (for instance a step declared
  after \<open>b\<close>), the execution aborts with the failure "Dependencies not met for step" naming
  \<open>b\<close>; the task functions called are exactly those of the steps before \<open>b\<close>, in order, so
  neither the task of \<open>b\<close> nor that of any later step runs.
\<close>

theorem unmet_dependency_aborts:
  assumes "agent flow = Some a"
    and "steps flow = before @ b # later"
    and "run_steps a context before [] [] = (calls, Inr results)"
    and "dep \<in> set (step_dependencies b)"
    and "dep \<notin> set (map step_name before)"
  shows "execute flow context =
           (map step_task before, Inl (ValueError (''Dependencies not met for step: '' @ step_name b)))
       \<and> calls = map step_task before
       \<and> dep \<notin> fst ` set results"
proof -
  from run_steps_completed [OF assms(3)]
  have calls: "calls = map step_task before" and keys: "fst ` set results = set (map step_name before)"
    by simp_all
  have "\<not> check_dependencies b results"
    using assms(4,5) keys by (auto simp: list_all_iff)
  then show ?thesis
    using assms(1,2,3,5) calls keys
    by (simp add: execute_def topological_sort_def run_steps_append)
qed

theorem unmet_dependency_aborts_witness:
  "agent out_of_order = Some sample_agent
   \<and> steps out_of_order = [] @ mk_step ''B'' ''task_b'' [''A''] # [mk_step ''A'' ''task_a'' []]
   \<and> run_steps sample_agent [] [] [] [] = ([], Inr [])
   \<and> ''A'' \<in> set (step_dependencies (mk_step ''B'' ''task_b'' [''A'']))
   \<and> ''A'' \<notin> set (map step_name [])
   \<and> execute out_of_order [] = ([], Inl (ValueError ''Dependencies not met for step: B''))"
proof -
  have 1: "agent out_of_order = Some sample_agent" by (simp add: out_of_order_def)
  have 2: "steps out_of_order = [] @ mk_step ''B'' ''task_b'' [''A''] # [mk_step ''A'' ''task_a'' []]"
    by (simp add: out_of_order_def)
  have 3: "run_steps sample_agent [] [] [] [] = ([], Inr [])" by simp
  have 4: "''A'' \<in> set (step_dependencies (mk_step ''B'' ''task_b'' [''A'']))"
    by (simp add: mk_step_def)
  have 5: "''A'' \<notin> set (map step_name [])" by simp
  from unmet_dependency_aborts [OF 1 2 3 4 5] 1 2 3 4 5 show ?thesis
    by (simp add: mk_step_def)
qed

section \<open>Font comparison: proofs\<close>












text \<open>With distinct names on a side, every font entry of the list is the entry of its name.\<close>

lemma font_dict_entry:
  "distinct (map (\<lambda>f. opt_get (font_name f) []) fonts) \<Longrightarrow> f \<in> set fonts \<Longrightarrow>
   map_of (font_dict fonts) (opt_get (font_name f) []) = Some f"
  unfolding font_dict_def by (rule fold_dict_set_lookup)










section \<open>Text comparison: proofs\<close>

lemma splitlines_sample:
  "splitlines ref_page = [''A'', ''B'', ''C'']" "splitlines new_page = [''A'', ''X'', ''C'']"
  by (simp_all add: splitlines_def ref_page_def new_page_def is_line_boundary_def)

lemma opcodes_sample:
  "get_opcodes [''A'', ''B'', ''C''] [''A'', ''X'', ''C''] =
     [(Equal, 0, 1, 0, 1), (Replace, 1, 2, 1, 2), (Equal, 2, 3, 2, 3)]"
  by code_simp

lemma compare_page_text_sample:
  "compare_page_text ref_page new_page pnum =
     [''On page '' @ str_int pnum @ '', line 2, the text was changed from '' @ dq @ ''B'' @ dq
      @ '' to '' @ dq @ ''X'' @ dq @ ''.'']"
  by (simp add: compare_page_text_def splitlines_sample opcodes_sample upt_rec str_nat.simps)

text \<open>
  Claim C5.  For a reference page with text \<open>"A\nB\nC"\<close> and a new page with text
  \<open>"A\nX\nC"\<close> under the same page number, the text comparator returns exactly one record:
  the replace record of line 2, reporting the change from "B" to "X"; there is no record
  for line 1 or line 3.  This holds for the page comparison and for the comparison of two
  documents that consist of these pages.
\<close>

theorem replace_line_two:
  "compare_page_text ref_page new_page pnum =
     [''On page '' @ str_int pnum @ '', line 2, the text was changed from '' @ dq @ ''B'' @ dq
      @ '' to '' @ dq @ ''X'' @ dq @ ''.'']
   \<and> text_compare [mk_page pnum ref_page] [mk_page pnum new_page] config =
     Inr [''On page '' @ str_int pnum @ '', line 2, the text was changed from '' @ dq @ ''B'' @ dq
          @ '' to '' @ dq @ ''X'' @ dq @ ''.'']
   \<and> get_opcodes (splitlines ref_page) (splitlines new_page) =
     [(Equal, 0, 1, 0, 1), (Replace, 1, 2, 1, 2), (Equal, 2, 3, 2, 3)]"
  by (simp add: text_compare_def mk_page_def compare_page_def compare_page_text_sample
        splitlines_sample opcodes_sample)

subsection \<open>A sequence matched against itself\<close>

text \<open>
  Row by row, the longest match found stays on the diagonal: a match off the diagonal is
  never longer than the diagonal run found before it.
\<close>

lemma match_row_refl:
  assumes range: "lo \<le> i" "i < hi"
    and P1: "\<forall>j v. j2len j = Some v \<longrightarrow> v \<le> run_before b lo (Suc j) \<and> v \<le> run_before b lo i"
    and P2: "prev_len j2len i = run_before b lo i"
    and nonpop: "b2j b (b ! i) \<noteq> []"
    and rest: "sorted_wrt (<) rest" "\<forall>j\<in>set rest. b2j b (b ! j) \<noteq> []"
    and N1: "\<forall>j v. m j = Some v \<longrightarrow> v \<le> run_before b lo (Suc j) \<and> v \<le> run_before b lo (Suc i)"
    and N2: "i \<in> set rest \<or> (m i = Some (run_before b lo (Suc i)) \<and> run_before b lo (Suc i) \<le> bs)"
    and N3: "\<forall>j'. lo \<le> j' \<and> j' < i \<longrightarrow> run_before b lo (Suc j') \<le> bs"
    and N4: "bi = bj"
    and run: "match_row j2len i lo hi rest (m, bi, bj, bs) = (m', bi', bj', bs')"
  shows "(\<forall>j v. m' j = Some v \<longrightarrow> v \<le> run_before b lo (Suc j) \<and> v \<le> run_before b lo (Suc i))
       \<and> m' i = Some (run_before b lo (Suc i)) \<and> run_before b lo (Suc i) \<le> bs'
       \<and> (\<forall>j'. lo \<le> j' \<and> j' < i \<longrightarrow> run_before b lo (Suc j') \<le> bs')
       \<and> bi' = bj'"
  using rest N1 N2 N3 N4 run
proof (induction rest arbitrary: m bi bj bs)
  case Nil
  then show ?case by simp
next
  case (Cons j rest)
  from Cons.prems(1) have sorted: "sorted_wrt (<) rest" and above: "\<forall>x\<in>set rest. j < x" by auto
  from Cons.prems(2) have np_rest: "\<forall>j\<in>set rest. b2j b (b ! j) \<noteq> []" and np_j: "b2j b (b ! j) \<noteq> []"
    by auto
  have rbi: "run_before b lo (Suc i) = run_before b lo i + 1"
    using range nonpop by (simp add: run_before.simps)
  show ?case
  proof (cases "j < lo")
    case True
    with Cons.prems(7) have run': "match_row j2len i lo hi rest (m, bi, bj, bs) = (m', bi', bj', bs')"
      by simp
    from True range have "j \<noteq> i" by auto
    with Cons.prems(4) have N2': "i \<in> set rest \<or> (m i = Some (run_before b lo (Suc i)) \<and> run_before b lo (Suc i) \<le> bs)"
      by auto
    from Cons.IH [OF sorted np_rest Cons.prems(3) N2' Cons.prems(5,6) run'] show ?thesis .
  next
    case low: False
    show ?thesis
    proof (cases "j \<ge> hi")
      case True
      with range above have "i \<notin> set (j # rest)" by auto
      with Cons.prems(4) have "m i = Some (run_before b lo (Suc i)) \<and> run_before b lo (Suc i) \<le> bs"
        by blast
      moreover from low True Cons.prems(7) have "(m', bi', bj', bs') = (m, bi, bj, bs)" by simp
      ultimately show ?thesis using Cons.prems(3,5,6) by simp
    next
      case False
      define k where "k = prev_len j2len j + 1"
      have rbj: "run_before b lo (Suc j) = run_before b lo j + 1"
        using low np_j by (simp add: run_before.simps)
      have prev: "prev_len j2len j \<le> run_before b lo j \<and> prev_len j2len j \<le> run_before b lo i"
      proof (cases j)
        case 0
        then show ?thesis by (simp add: prev_len_def)
      next
        case (Suc j0)
        show ?thesis
        proof (cases "j2len j0")
          case None
          then show ?thesis by (simp add: prev_len_def Suc)
        next
          case (Some v)
          with P1 have "v \<le> run_before b lo (Suc j0) \<and> v \<le> run_before b lo i" by blast
          with Some show ?thesis by (simp add: prev_len_def Suc)
        qed
      qed
      have k1: "k \<le> run_before b lo (Suc j)" and k2: "k \<le> run_before b lo (Suc i)"
        using prev rbj rbi by (simp_all add: k_def)
      have N1': "\<forall>j' v. (m(j \<mapsto> k)) j' = Some v \<longrightarrow>
            v \<le> run_before b lo (Suc j') \<and> v \<le> run_before b lo (Suc i)"
        using Cons.prems(3) k1 k2 by auto
      have step: "match_row j2len i lo hi (j # rest) (m, bi, bj, bs) =
          (if k > bs then match_row j2len i lo hi rest (m(j \<mapsto> k), i + 1 - k, j + 1 - k, k)
           else match_row j2len i lo hi rest (m(j \<mapsto> k), bi, bj, bs))"
        using low False by (simp add: k_def prev_len_def Let_def)
      consider (lt) "j < i" | (eq) "j = i" | (gt) "j > i" by linarith
      then show ?thesis
      proof cases
        case lt
        with low Cons.prems(5) k1 have "k \<le> bs" by (meson le_trans not_less)
        with step Cons.prems(7)
        have run': "match_row j2len i lo hi rest (m(j \<mapsto> k), bi, bj, bs) = (m', bi', bj', bs')"
          by simp
        from lt Cons.prems(4)
        have N2': "i \<in> set rest \<or> ((m(j \<mapsto> k)) i = Some (run_before b lo (Suc i)) \<and> run_before b lo (Suc i) \<le> bs)"
          by auto
        from Cons.IH [OF sorted np_rest N1' N2' Cons.prems(5,6) run'] show ?thesis .
      next
        case eq
        have kval: "k = run_before b lo (Suc i)"
          using P2 rbi by (simp add: k_def eq)
        show ?thesis
        proof (cases "k > bs")
          case True
          with step Cons.prems(7)
          have run': "match_row j2len i lo hi rest (m(j \<mapsto> k), i + 1 - k, j + 1 - k, k) = (m', bi', bj', bs')"
            by simp
          have N2': "i \<in> set rest \<or> ((m(j \<mapsto> k)) i = Some (run_before b lo (Suc i)) \<and> run_before b lo (Suc i) \<le> k)"
            by (simp add: eq kval)
          have N3': "\<forall>j'. lo \<le> j' \<and> j' < i \<longrightarrow> run_before b lo (Suc j') \<le> k"
            using Cons.prems(5) True by (meson le_trans less_imp_le)
          have N4': "i + 1 - k = j + 1 - k" by (simp add: eq)
          from Cons.IH [OF sorted np_rest N1' N2' N3' N4' run'] show ?thesis .
        next
          case False
          with step Cons.prems(7)
          have run': "match_row j2len i lo hi rest (m(j \<mapsto> k), bi, bj, bs) = (m', bi', bj', bs')"
            by simp
          have N2': "i \<in> set rest \<or> ((m(j \<mapsto> k)) i = Some (run_before b lo (Suc i)) \<and> run_before b lo (Suc i) \<le> bs)"
            using False by (simp add: eq kval)
          from Cons.IH [OF sorted np_rest N1' N2' Cons.prems(5,6) run'] show ?thesis .
        qed
      next
        case gt
        with above have "i \<notin> set (j # rest)" by auto
        with Cons.prems(4) have seen: "m i = Some (run_before b lo (Suc i))" "run_before b lo (Suc i) \<le> bs"
          by auto
        with k2 have "k \<le> bs" by simp
        with step Cons.prems(7)
        have run': "match_row j2len i lo hi rest (m(j \<mapsto> k), bi, bj, bs) = (m', bi', bj', bs')"
          by simp
        have N2': "i \<in> set rest \<or> ((m(j \<mapsto> k)) i = Some (run_before b lo (Suc i)) \<and> run_before b lo (Suc i) \<le> bs)"
          using seen gt by simp
        from Cons.IH [OF sorted np_rest N1' N2' Cons.prems(5,6) run'] show ?thesis .
      qed
    qed
  qed
qed

lemma b2j_cases: "b2j b x = [] \<or> b2j b x = filter (\<lambda>j. b ! j = x) [0..<length b]"
  by (simp add: b2j_def Let_def)

lemma match_rows_refl:
  assumes "rows = [i..<hi]" and "lo \<le> i" and "hi \<le> length b"
    and "\<forall>j v. j2len j = Some v \<longrightarrow> v \<le> run_before b lo (Suc j) \<and> v \<le> run_before b lo i"
    and "prev_len j2len i = run_before b lo i"
    and "\<forall>j'. lo \<le> j' \<and> j' < i \<longrightarrow> run_before b lo (Suc j') \<le> bs"
    and "bi = bj"
    and "match_rows b b lo hi rows (j2len, bi, bj, bs) = (ri, rj, rk)"
  shows "ri = rj"
  using assms
proof (induction rows arbitrary: i j2len bi bj bs)
  case Nil
  then show ?case by simp
next
  case (Cons r rows)
  from Cons.prems(1) [symmetric] have r: "r = i" and lt: "i < hi" and rows: "rows = [Suc i..<hi]"
    by (auto simp: upt_eq_Cons_conv)
  obtain m' bi' bj' bs' where
    row: "match_row j2len i lo hi (b2j b (b ! i)) (Map.empty, bi, bj, bs) = (m', bi', bj', bs')"
    by (metis prod_cases4)
  have run: "match_rows b b lo hi rows (m', bi', bj', bs') = (ri, rj, rk)"
    using Cons.prems(8) row by (simp add: r)
  have le: "lo \<le> Suc i" using Cons.prems(2) by simp
  have post: "(\<forall>j v. m' j = Some v \<longrightarrow> v \<le> run_before b lo (Suc j) \<and> v \<le> run_before b lo (Suc i))
       \<and> prev_len m' (Suc i) = run_before b lo (Suc i)
       \<and> (\<forall>j'. lo \<le> j' \<and> j' < Suc i \<longrightarrow> run_before b lo (Suc j') \<le> bs')
       \<and> bi' = bj'"
  proof (cases "b2j b (b ! i) = []")
    case True
    with row have same: "m' = Map.empty" "bi' = bi" "bj' = bj" "bs' = bs" by simp_all
    have zero: "run_before b lo (Suc i) = 0" using True by (simp add: run_before.simps)
    have "\<forall>j'. lo \<le> j' \<and> j' < Suc i \<longrightarrow> run_before b lo (Suc j') \<le> bs"
      using Cons.prems(6) zero by (auto simp: less_Suc_eq)
    then show ?thesis using same zero Cons.prems(7) by (simp add: prev_len_def)
  next
    case False
    with b2j_cases [of b "b ! i"]
    have js: "b2j b (b ! i) = filter (\<lambda>j. b ! j = b ! i) [0..<length b]" by simp
    have sorted: "sorted_wrt (<) (b2j b (b ! i))"
      unfolding js by (rule sorted_wrt_filter) simp
    have np: "\<forall>j\<in>set (b2j b (b ! i)). b2j b (b ! j) \<noteq> []"
      using False by (auto simp: js)
    have mem: "i \<in> set (b2j b (b ! i)) \<or>
        (Map.empty i = Some (run_before b lo (Suc i)) \<and> run_before b lo (Suc i) \<le> bs)"
      using lt Cons.prems(3) by (simp add: js)
    have N1: "\<forall>j v. (Map.empty :: nat \<rightharpoonup> nat) j = Some v \<longrightarrow>
        v \<le> run_before b lo (Suc j) \<and> v \<le> run_before b lo (Suc i)"
      by simp
    from match_row_refl [OF Cons.prems(2) lt Cons.prems(4,5) False sorted np N1 mem Cons.prems(6,7) row]
    have res: "\<forall>j v. m' j = Some v \<longrightarrow> v \<le> run_before b lo (Suc j) \<and> v \<le> run_before b lo (Suc i)"
      "m' i = Some (run_before b lo (Suc i))" "run_before b lo (Suc i) \<le> bs'"
      "\<forall>j'. lo \<le> j' \<and> j' < i \<longrightarrow> run_before b lo (Suc j') \<le> bs'" "bi' = bj'"
      by blast+
    have "\<forall>j'. lo \<le> j' \<and> j' < Suc i \<longrightarrow> run_before b lo (Suc j') \<le> bs'"
      using res(3,4) by (auto simp: less_Suc_eq)
    then show ?thesis using res by (simp add: prev_len_def)
  qed
  from post have p1: "\<forall>j v. m' j = Some v \<longrightarrow> v \<le> run_before b lo (Suc j) \<and> v \<le> run_before b lo (Suc i)"
    and p2: "prev_len m' (Suc i) = run_before b lo (Suc i)"
    and p3: "\<forall>j'. lo \<le> j' \<and> j' < Suc i \<longrightarrow> run_before b lo (Suc j') \<le> bs'"
    and p4: "bi' = bj'"
    by blast+
  from Cons.IH [OF rows le Cons.prems(3) p1 p2 p3 p4 run] show ?case .
qed

lemma extend_left_refl:
  "lo \<le> d \<Longrightarrow> extend_left a a lo lo (d, d, s) = (lo, lo, s + (d - lo))"
proof (induction "d - lo" arbitrary: d s)
  case 0
  then have "d = lo" by simp
  then show ?case by (subst extend_left.simps) simp
next
  case (Suc n)
  then have "n = (d - 1) - lo" "lo \<le> d - 1" "lo < d" by auto
  from Suc.hyps(1) [OF this(1,2), of "s + 1"] this(3) show ?case
    by (subst extend_left.simps) simp
qed

lemma extend_right_refl:
  "lo + s \<le> hi \<Longrightarrow> extend_right a a hi hi (lo, lo, s) = (lo, lo, hi - lo)"
proof (induction "hi - (lo + s)" arbitrary: s)
  case 0
  then have "hi = lo + s" by simp
  then show ?case by (subst extend_right.simps) simp
next
  case (Suc n)
  then have "n = hi - (lo + (s + 1))" "lo + (s + 1) \<le> hi" "lo + s < hi" by auto
  from Suc.hyps(1) [OF this(1,2)] this(3) show ?case
    by (subst extend_right.simps) simp
qed

lemma find_longest_match_refl:
  assumes "lo \<le> hi" and "hi \<le> length a"
  shows "find_longest_match a a lo hi lo hi = (lo, lo, hi - lo)"
proof -
  obtain i1 j1 k1 where rows: "match_rows a a lo hi [lo..<hi] (Map.empty, lo, lo, 0) = (i1, j1, k1)"
    by (metis prod_cases3)
  from match_rows_bounds [OF refl _ _ _ _ rows, of lo] assms(1)
  have bounds: "lo \<le> i1" "i1 + k1 \<le> hi" by (auto simp: max_def)
  have "prev_len Map.empty lo = run_before a lo lo"
    by (cases lo) (simp_all add: prev_len_def run_before.simps)
  from match_rows_refl [OF refl _ assms(2) _ this _ _ rows]
  have diag: "j1 = i1" by simp
  have left: "extend_left a a lo lo (i1, i1, k1) = (lo, lo, k1 + (i1 - lo))"
    by (rule extend_left_refl [OF bounds(1)])
  have "lo + (k1 + (i1 - lo)) \<le> hi" using bounds by simp
  then have right: "extend_right a a hi hi (lo, lo, k1 + (i1 - lo)) = (lo, lo, hi - lo)"
    by (rule extend_right_refl)
  show ?thesis
    by (simp add: find_longest_match_def rows diag left right)
qed

lemma collect_blocks_refl:
  "collect_blocks a a [(0, length a, 0, length a)] [] = (if a = [] then [] else [(0, 0, length a)])"
  by (simp add: collect_blocks.simps find_longest_match_refl)

lemma get_opcodes_refl:
  "get_opcodes a a = (if a = [] then [] else [(Equal, 0, length a, 0, length a)])"
  by (simp add: get_opcodes_def get_matching_blocks_def collect_blocks_refl Let_def)

lemma compare_page_text_refl: "compare_page_text t t pnum = []"
  by (simp add: compare_page_text_def get_opcodes_refl Let_def)

section \<open>Comparison step: proofs\<close>

lemma compare_entry_error:
  "content_error c = Some e \<Longrightarrow>
   compare_entry config (filename, c) (all_differences, summary) =
     (dict_set all_differences filename (ErrorPayload e), summary)"
  by simp

lemma compare_entry_other:
  "f \<noteq> filename \<Longrightarrow> map_of (fst (compare_entry config (filename, c) acc)) f = map_of (fst acc) f"
  by (cases acc) (auto simp: map_of_dict_set Let_def split: option.splits sum.splits prod.splits)

lemma fold_compare_untouched:
  "f \<notin> fst ` set pc \<Longrightarrow>
   map_of (fst (fold (compare_entry config) pc acc)) f = map_of (fst acc) f"
proof (induction pc arbitrary: acc)
  case Nil
  show ?case by simp
next
  case (Cons x pc)
  obtain filename c where x: "x = (filename, c)" by (cases x)
  from Cons.prems x have "f \<noteq> filename" "f \<notin> fst ` set pc" by auto
  with Cons.IH [of "compare_entry config (filename, c) acc"] show ?case
    by (simp add: x compare_entry_other)
qed

lemma error_entry_kept:
  assumes "distinct (map fst parsed_content)" and "(f, c) \<in> set parsed_content"
    and "content_error c = Some e"
  shows "map_of (fst (compare_content parsed_content config)) f = Some (ErrorPayload e)"
proof -
  have "map_of (fst (fold (compare_entry config) pc acc)) f = Some (ErrorPayload e)"
    if "distinct (map fst pc)" "(f, c) \<in> set pc" for pc acc
    using that
  proof (induction pc arbitrary: acc)
    case Nil
    then show ?case by simp
  next
    case (Cons x pc)
    obtain filename c' where x: "x = (filename, c')" by (cases x)
    show ?case
    proof (cases "x = (f, c)")
      case True
      with Cons.prems have "f \<notin> fst ` set pc" by auto
      from fold_compare_untouched [OF this] True assms(3) show ?thesis
        by (cases acc) (simp add: map_of_dict_set)
    next
      case False
      with Cons.prems have "distinct (map fst pc)" "(f, c) \<in> set pc" by auto
      from Cons.IH [OF this] show ?thesis by simp
    qed
  qed
  from this [OF assms(1,2)] show ?thesis by (simp add: compare_content_def)
qed

lemma parse_sample: "fst (parse_pdfs sample_parser sample_validated) =
   [(''a.pdf'', \<lparr>content_error = None, content_reference = Some (failed_parse ''cannot open broken document''),
      content_new = Some \<lparr>doc_text = [mk_page 1 ''hello''], doc_images = [], doc_fonts = [],
            doc_page_size = Some (612, 792), doc_error = None\<rparr>\<rparr>)]"
  by (simp add: parse_pdfs_def sample_validated_def parse_file_def sample_parser_def)

text \<open>
  Claim C7.  A per-file entry with the key \<open>error\<close> at its top level is answered by the error
  payload alone (\<open>error_entry_kept\<close>).  The error payload of a failed extraction is not at
  the top level, though: \<open>parse_pdfs\<close> stores what the parser returned under \<open>reference\<close>
  and \<open>new\<close>, so \<open>compare_content\<close> does not see it and compares the file.  In the run
  below the extraction of the reference file failed, and the entry of the file in the
  comparison results holds a difference record and no error payload.
\<close>

theorem nested_parse_error_compared:
  "map_of (fst (parse_pdfs sample_parser sample_validated)) ''a.pdf'' =
     Some \<lparr>content_error = None,
           content_reference = Some (failed_parse ''cannot open broken document''),
           content_new = Some (sample_parser ''new/a.pdf'')\<rparr>
   \<and> compare_content (fst (parse_pdfs sample_parser sample_validated)) medium_profile =
     ([(''a.pdf'', Differences [''On page 1, a new page was added.''] [] [])],
      \<lparr>total_files = 1, files_with_changes = 1, total_changes = 1\<rparr>)"
  by (simp add: parse_sample sample_parser_def compare_content_def compare_file_def failed_parse_def
        text_compare_def mk_page_def compare_page_def str_int_def str_nat.simps)

section \<open>Identical documents: proofs\<close>

lemma py_eq_refl: "py_eq a a"
  by (cases a) (simp_all add: py_eq_def)

lemma text_map_ok:
  "list_all page_ok pages \<Longrightarrow> \<exists>m. text_map pages d = Inr m"
  by (induction pages arbitrary: d) (auto simp: page_ok_def)

lemma text_compare_refl:
  assumes "list_all page_ok pages"
  shows "text_compare pages pages config = Inr []"
proof -
  from text_map_ok [OF assms] obtain m where m: "text_map pages [] = Inr m" by blast
  have "compare_page m m p = []" if "p \<in> fst ` set m" for p
  proof -
    from that obtain t where "map_of m p = Some t"
      by (metis map_of_eq_None_iff not_Some_eq)
    then show ?thesis by (simp add: compare_page_def compare_page_text_refl)
  qed
  then have "concat (map (compare_page m m) (sort (remdups (map fst m @ map fst m)))) = []"
    by auto
  then show ?thesis by (simp add: text_compare_def m)
qed

lemma name_dict_ok:
  "list_all font_ok fonts \<Longrightarrow> list_all (\<lambda>(k, f). font_size f \<noteq> None) d \<Longrightarrow>
   \<exists>d'. name_dict fonts d = Inr d' \<and> list_all (\<lambda>(k, f). font_size f \<noteq> None) d'"
proof (induction fonts arbitrary: d)
  case Nil
  then show ?case by simp
next
  case (Cons f fonts)
  from Cons.prems(1) have fo: "font_ok f" and rest: "list_all font_ok fonts" by simp_all
  from fo obtain n where n: "font_name f = Some n" and sz: "font_size f \<noteq> None"
    by (auto simp: font_ok_def)
  have "list_all (\<lambda>(k, f). font_size f \<noteq> None) (dict_set d n f)"
    using Cons.prems(2) sz by (induction d n f rule: dict_set.induct) auto
  from Cons.IH [OF rest this] show ?case by (simp add: n)
qed

lemma analyze_font_refl:
  assumes "map_of d name = Some f" and "font_size f \<noteq> None" and "0 \<le> tolerance"
  shows "analyze_font d d tolerance name = Inr []"
  using assms by (auto simp: analyze_font_def py_eq_refl)

lemma analyze_fonts_refl:
  assumes "list_all (\<lambda>(k, f). font_size f \<noteq> None) d" and "set names \<subseteq> fst ` set d"
    and "0 \<le> tolerance"
  shows "analyze_fonts d d tolerance names acc = Inr acc"
  using assms(2)
proof (induction names arbitrary: acc)
  case Nil
  show ?case by simp
next
  case (Cons name names)
  from Cons.prems obtain f where f: "map_of d name = Some f"
    by (metis list.set_intros(1) map_of_eq_None_iff not_Some_eq subsetD)
  then have "(name, f) \<in> set d" by (rule map_of_SomeD)
  with assms(1) have "font_size f \<noteq> None" by (auto simp: list_all_iff)
  from analyze_font_refl [OF f this assms(3)] Cons show ?case by simp
qed

lemma font_analyzer_compare_refl:
  assumes "list_all font_ok fonts" and "0 \<le> opt_get (size_tolerance config) 0.5"
  shows "font_analyzer_compare fonts fonts config = Inr []"
proof -
  from name_dict_ok [OF assms(1), of "[]"] obtain d where
    d: "name_dict fonts [] = Inr d" "list_all (\<lambda>(k, f). font_size f \<noteq> None) d"
    by auto
  have "analyze_fonts d d (opt_get (size_tolerance config) 0.5) (remdups (map fst d @ map fst d)) [] = Inr []"
    by (rule analyze_fonts_refl [OF d(2) _ assms(2)]) auto
  then show ?thesis by (simp add: font_analyzer_compare_def d(1))
qed

lemma compare_image_pairs_refl:
  "list_all image_ok images \<Longrightarrow> compare_image_pairs hash_func idx images images acc = Inr acc"
  by (induction images arbitrary: idx acc)
     (auto simp: image_ok_def image_hash_def image_truthy_def)

lemma image_compare_refl:
  "list_all image_ok images \<Longrightarrow> image_compare lib images images config = Inr []"
  by (simp add: image_compare_def compare_image_pairs_refl Let_def)

lemma profile_cases:
  "get_sensitivity_config level = high_profile \<or> get_sensitivity_config level = medium_profile
   \<or> get_sensitivity_config level = low_profile"
  by (simp add: get_sensitivity_config_def SENSITIVITY_LEVELS_def dict_get_def)

lemma profile_tolerance: "0 \<le> opt_get (size_tolerance (font_profile (get_sensitivity_config level))) 0.5"
  using profile_cases [of level]
  by (auto simp: high_profile_def medium_profile_def low_profile_def opt_get_def)

text \<open>
  Claim C4.  For every extracted document (every page with its number and text, every font
  with its name and size, every image with its payload) compared against itself, the text
  comparator, the font comparator and the image comparator each return the empty list of
  differences, under the profile of every sensitivity level.
\<close>

theorem identical_documents_no_differences:
  assumes "extracted_ok doc"
  shows "text_compare (doc_text doc) (doc_text doc) (text_profile (get_sensitivity_config level)) = Inr []
       \<and> font_analyzer_compare (doc_fonts doc) (doc_fonts doc)
            (font_profile (get_sensitivity_config level)) = Inr []
       \<and> image_compare lib (doc_images doc) (doc_images doc)
            (image_profile (get_sensitivity_config level)) = Inr []"
proof -
  from assms have pages: "list_all page_ok (doc_text doc)" and fonts: "list_all font_ok (doc_fonts doc)"
    and images: "list_all image_ok (doc_images doc)"
    by (simp_all add: extracted_ok_def)
  from text_compare_refl [OF pages] font_analyzer_compare_refl [OF fonts profile_tolerance]
    image_compare_refl [OF images]
  show ?thesis by blast
qed

theorem identical_documents_no_differences_witness:
  "extracted_ok sample_document
   \<and> text_compare (doc_text sample_document) (doc_text sample_document)
        (text_profile (get_sensitivity_config ''high'')) = Inr []
   \<and> font_analyzer_compare (doc_fonts sample_document) (doc_fonts sample_document)
        (font_profile (get_sensitivity_config ''high'')) = Inr []
   \<and> image_compare sample_hashlib (doc_images sample_document) (doc_images sample_document)
        (image_profile (get_sensitivity_config ''high'')) = Inr []"
proof -
  have ok: "extracted_ok sample_document"
    by (simp add: extracted_ok_def sample_document_def page_ok_def font_ok_def image_ok_def
          mk_page_def mk_font_def)
  from identical_documents_no_differences [OF ok, of "''high''" sample_hashlib] ok
  show ?thesis by simp
qed

end
